theory Spec2Isabelle
  imports Complex_Main "HOL-Library.Multiset"
begin

section \<open>JavaScript values used by the worker\<close>

text \<open>
  The numbers the worker computes with are integers and NaN: \<open>None\<close> is NaN. Integers
  are unbounded here; the worker's are offsets, indices and counts far below the range
  in which a double stops being exact. Strings are lists of bytes.
\<close>

type_synonym js_number = "int option"

text \<open>\<open>String(n)\<close> and \<open>n.toString()\<close> of an integer, in decimal.\<close>

definition digit_char :: "nat \<Rightarrow> char" where
  "digit_char d = char_of (48 + d)"

fun digits_of :: "nat \<Rightarrow> string" where
  "digits_of n = (if n < 10 then [digit_char n] else digits_of (n div 10) @ [digit_char (n mod 10)])"

declare digits_of.simps [simp del]

definition String_int :: "int \<Rightarrow> string" where
  "String_int i = (if i < 0 then CHR ''-'' # digits_of (nat (- i)) else digits_of (nat i))"

definition String_num :: "js_number \<Rightarrow> string" where
  "String_num x = (case x of None \<Rightarrow> ''NaN'' | Some i \<Rightarrow> String_int i)"

text \<open>
  \<open>parseInt(s, 10)\<close> and \<open>parseInt(s)\<close>: leading white space is skipped (of the white
  space characters the ones within ASCII are modelled), a sign is read, and the longest
  run of digits of the radix is the value; NaN when there is no digit. Without a radix a
  prefix \<open>0x\<close> selects radix 16.
\<close>

definition is_space :: "char \<Rightarrow> bool" where
  "is_space c = (c \<in> set [CHR 0x09, CHR 0x0A, CHR 0x0B, CHR 0x0C, CHR 0x0D, CHR 0x20])"

definition digit_val :: "char \<Rightarrow> nat option" where
  "digit_val c =
     (let k = (of_char c :: nat) in
      if 48 \<le> k \<and> k \<le> 57 then Some (k - 48)
      else if 97 \<le> k \<and> k \<le> 122 then Some (k - 87)
      else if 65 \<le> k \<and> k \<le> 90 then Some (k - 55)
      else None)"

definition radix_digit :: "nat \<Rightarrow> char \<Rightarrow> bool" where
  "radix_digit r c = (case digit_val c of None \<Rightarrow> False | Some d \<Rightarrow> d < r)"

definition radix_value :: "nat \<Rightarrow> string \<Rightarrow> nat" where
  "radix_value r ds = foldl (\<lambda>a c. r * a + (case digit_val c of None \<Rightarrow> 0 | Some d \<Rightarrow> d)) 0 ds"

definition strip_sign :: "string \<Rightarrow> bool \<times> string" where
  "strip_sign s =
     (case s of
        [] \<Rightarrow> (False, [])
      | c # cs \<Rightarrow> if c = CHR ''-'' then (True, cs) else if c = CHR ''+'' then (False, cs) else (False, s))"

definition has_hex_prefix :: "string \<Rightarrow> bool" where
  "has_hex_prefix s = (take 2 s = ''0x'' \<or> take 2 s = ''0X'')"

definition parse_digits :: "nat \<Rightarrow> bool \<Rightarrow> string \<Rightarrow> js_number" where
  "parse_digits r neg s =
     (let ds = takeWhile (radix_digit r) s in
      if ds = [] then None
      else Some (if neg then - int (radix_value r ds) else int (radix_value r ds)))"

definition parseInt_radix10 :: "string \<Rightarrow> js_number" where
  "parseInt_radix10 s = (case strip_sign (dropWhile is_space s) of (neg, t) \<Rightarrow> parse_digits 10 neg t)"

definition parseInt :: "string \<Rightarrow> js_number" where
  "parseInt s =
     (case strip_sign (dropWhile is_space s) of
        (neg, t) \<Rightarrow> if has_hex_prefix t then parse_digits 16 neg (drop 2 t) else parse_digits 10 neg t)"


text \<open>
  Arithmetic with NaN. The remainder takes the sign of the dividend; \<open>Math.min\<close> and
  comparisons with NaN give NaN and false.
\<close>

definition js_add :: "js_number \<Rightarrow> js_number \<Rightarrow> js_number" where
  "js_add a b = (case (a, b) of (Some x, Some y) \<Rightarrow> Some (x + y) | _ \<Rightarrow> None)"

definition js_rem :: "js_number \<Rightarrow> nat \<Rightarrow> js_number" where
  "js_rem a n =
     (case a of
        None \<Rightarrow> None
      | Some x \<Rightarrow>
          if n = 0 then None
          else if x < 0 then Some (- ((- x) mod int n))
          else Some (x mod int n))"

definition Math_min :: "js_number \<Rightarrow> js_number \<Rightarrow> js_number" where
  "Math_min a b = (case (a, b) of (Some x, Some y) \<Rightarrow> Some (min x y) | _ \<Rightarrow> None)"

definition js_ge :: "js_number \<Rightarrow> js_number \<Rightarrow> bool" where
  "js_ge a b = (case (a, b) of (Some x, Some y) \<Rightarrow> x \<ge> y | _ \<Rightarrow> False)"

text \<open>
  \<open>xs.slice(start, end)\<close>: NaN counts as 0, a negative index counts from the end, and
  both ends are clamped to the array.
\<close>

definition relative_index :: "nat \<Rightarrow> js_number \<Rightarrow> nat" where
  "relative_index len k =
     (case k of
        None \<Rightarrow> 0
      | Some i \<Rightarrow> if i < 0 then nat (max (int len + i) 0) else nat (min i (int len)))"

definition slice :: "'a list \<Rightarrow> js_number \<Rightarrow> js_number \<Rightarrow> 'a list" where
  "slice xs start fin =
     (let k = relative_index (length xs) start;
          f = relative_index (length xs) fin
      in take (f - k) (drop k xs))"

text \<open>\<open>xs[k]\<close>: \<open>undefined\<close>, here \<open>None\<close>, outside the array and for NaN.\<close>

definition array_index :: "'a list \<Rightarrow> js_number \<Rightarrow> 'a option" where
  "array_index xs k =
     (case k of
        None \<Rightarrow> None
      | Some i \<Rightarrow> if 0 \<le> i \<and> i < int (length xs) then Some (xs ! nat i) else None)"

text \<open>A value that may be \<open>undefined\<close>, inside a template literal.\<close>

definition template :: "string option \<Rightarrow> string" where
  "template v = (case v of None \<Rightarrow> ''undefined'' | Some s \<Rightarrow> s)"

text \<open>A thrown error, with its message.\<close>

datatype js_error = Error string

definition message :: "js_error \<Rightarrow> string" where
  "message e = (case e of Error m \<Rightarrow> m)"

section \<open>Configuration (config.js)\<close>

text \<open>
  The exported constants of config.js. The three objects are kept as association lists in
  the order of their literals, which is the order \<open>Object.keys\<close> enumerates.
\<close>

record config =
  SITEMAPS :: "string list"
  REGION_ORDER :: "string list"
  REGIONS :: "(string \<times> string) list"
  DO_REGION_HINTS :: "(string \<times> string) list"
  REGION_COLOS :: "(string \<times> string list) list"

definition Object_keys :: "(string \<times> 'v) list \<Rightarrow> string list" where
  "Object_keys obj = map fst obj"

definition s5_config :: config where
  "s5_config =
     \<lparr> SITEMAPS =
         [''https://www.s-5.com/sitemap_index.xml'',
          ''https://www.s-5.com/page-sitemap.xml'',
          ''https://www.s-5.com/product-sitemap.xml'',
          ''https://www.s-5.com/case-studies-sitemap.xml'',
          ''https://www.s-5.com/tribe_events-sitemap.xml'',
          ''https://www.s-5.com/product_cat-sitemap.xml'',
          ''https://es.s-5.com/sitemap_index.xml'',
          ''https://es.s-5.com/page-sitemap.xml'',
          ''https://es.s-5.com/products-sitemap.xml'',
          ''https://es.s-5.com/case-studies-sitemap.xml'',
          ''https://es.s-5.com/tribe_events-sitemap.xml''],
       REGION_ORDER =
         [''Western North America'', ''Eastern North America'', ''South America'',
          ''Western Europe'', ''Eastern Europe'', ''Middle East'', ''Africa'',
          ''Asia-Pacific'', ''Oceania''],
       REGIONS =
         [(''Western North America'', ''SFO''), (''Eastern North America'', ''IAD''),
          (''South America'', ''GRU''), (''Western Europe'', ''AMS''),
          (''Eastern Europe'', ''WAW''), (''Middle East'', ''DXB''), (''Africa'', ''JNB''),
          (''Asia-Pacific'', ''SIN''), (''Oceania'', ''SYD'')],
       DO_REGION_HINTS =
         [(''Western North America'', ''wnam''), (''Eastern North America'', ''enam''),
          (''South America'', ''sam''), (''Western Europe'', ''weur''),
          (''Eastern Europe'', ''eeur''), (''Middle East'', ''me''), (''Africa'', ''afr''),
          (''Asia-Pacific'', ''apac''), (''Oceania'', ''oc'')],
       REGION_COLOS =
         [(''Western North America'',
             [''SFO'', ''LAX'', ''SEA'', ''SJC'', ''DEN'', ''PHX'', ''LAS'', ''YVR'', ''YYC'', ''SLC'', ''PDX'']),
          (''Eastern North America'',
             [''IAD'', ''JFK'', ''EWR'', ''YYZ'', ''YUL'', ''ATL'', ''MIA'', ''BOS'', ''ORD'', ''DFW'', ''CLT'', ''DTW'']),
          (''South America'', [''GRU'', ''GIG'', ''EZE'', ''SCL'', ''LIM'', ''BOG'', ''UIO'', ''MVD'']),
          (''Western Europe'',
             [''AMS'', ''LHR'', ''FRA'', ''CDG'', ''MAD'', ''BRU'', ''DUS'', ''HAM'', ''CPH'', ''BCN'', ''ZRH'']),
          (''Eastern Europe'',
             [''WAW'', ''PRG'', ''BUD'', ''OTP'', ''VIE'', ''RIX'', ''VNO'', ''TLL'', ''BEG'', ''SOF'']),
          (''Middle East'', [''DXB'', ''DOH'', ''BAH'', ''KWI'', ''AMM'', ''MCT'', ''RUH'', ''JED'']),
          (''Africa'', [''JNB'', ''CPT'', ''NBO'', ''CAI'', ''CMN'', ''LOS'', ''ACC'', ''DAR'', ''TUN'']),
          (''Asia-Pacific'',
             [''SIN'', ''HKG'', ''KUL'', ''BKK'', ''NRT'', ''KIX'', ''ICN'', ''TPE'', ''MNL'', ''CGK'']),
          (''Oceania'', [''SYD'', ''MEL'', ''BNE'', ''AKL'', ''PER'', ''ADL'', ''CBR''])] \<rparr>"

section \<open>The key-value namespace\<close>

text \<open>
  A stored run summary, as \<open>storeResults\<close> writes it and \<open>getHistoricalData\<close> reads
  it back. Every field the readers guard with \<open>|| 0\<close> is optional, \<open>None\<close> being a
  property the parsed object lacks. The fields \<open>timestampISO\<close> and \<open>duration\<close> are
  wall-clock renderings and are left out. The fields carry the prefix \<open>s_\<close>, the run
  result of the Durable Object keeping the plain names.
\<close>

record summary =
  s_region :: string
  s_timestamp :: "nat option"
  s_success :: "nat option"
  s_failures :: "nat option"
  s_cacheHit :: "nat option"
  s_cacheMiss :: "nat option"
  s_cacheExpired :: "nat option"
  s_cacheOther :: "nat option"
  s_hitRate :: "string option"
  s_coloMatched :: "nat option"
  s_coloMismatched :: "nat option"
  s_coloMatchRate :: "string option"
  s_coloBreakdown :: "string \<rightharpoonup> nat"
  s_regionMatched :: "nat option"
  s_regionMismatched :: "nat option"
  s_regionMatchRate :: "string option"
  s_totalUrls :: "nat option"

record error_payload =
  e_region :: string
  e_error :: string
  e_timestamp :: nat

text \<open>
  A value of the namespace is a string. The strings the worker writes are decimal
  integers (the two cursors) and \<open>JSON.stringify\<close> of a summary or of an error
  payload; the JSON texts are kept as the object they encode, so that
  \<open>JSON.parse (JSON.stringify x) = x\<close> holds by construction.
\<close>

datatype kv_value = Text string | Summary_json summary | Error_json error_payload

text \<open>
  \<open>get\<close> and \<open>put\<close> may reject; which keys do is a parameter of the namespace, as is what
  \<open>list\<close> answers for a prefix and a limit (\<open>Inl\<close> when it rejects). Expiry of keys is
  wall-clock behaviour and is not modelled.
\<close>

record kv_namespace =
  entries :: "string \<rightharpoonup> kv_value"
  get_fails :: "string \<Rightarrow> bool"
  put_fails :: "string \<Rightarrow> bool"
  list_result :: "string \<Rightarrow> js_number \<Rightarrow> js_error + string list"

definition kv_get :: "kv_namespace \<Rightarrow> string \<Rightarrow> js_error + kv_value option" where
  "kv_get kv k = (if get_fails kv k then Inl (Error ''KV get failed'') else Inr (entries kv k))"

definition kv_put :: "kv_namespace \<Rightarrow> string \<Rightarrow> kv_value \<Rightarrow> js_error + kv_namespace" where
  "kv_put kv k v =
     (if put_fails kv k then Inl (Error ''KV put failed'')
      else Inr (kv\<lparr>entries := (entries kv)(k \<mapsto> v)\<rparr>))"

text \<open>
  The text of a stored JSON object starts with a brace, so \<open>parseInt\<close> of it is NaN and
  it is a non-empty (truthy) string.
\<close>

definition kv_parseInt_radix10 :: "kv_value \<Rightarrow> js_number" where
  "kv_parseInt_radix10 v = (case v of Text s \<Rightarrow> parseInt_radix10 s | _ \<Rightarrow> None)"

definition kv_parseInt :: "kv_value \<Rightarrow> js_number" where
  "kv_parseInt v = (case v of Text s \<Rightarrow> parseInt s | _ \<Rightarrow> None)"

text \<open>Whether a value read from the namespace is truthy: \<open>null\<close> and the empty string are not.\<close>

definition truthy :: "kv_value option \<Rightarrow> bool" where
  "truthy v = (case v of None \<Rightarrow> False | Some (Text s) \<Rightarrow> s \<noteq> [] | Some _ \<Rightarrow> True)"

text \<open>
  The worker's environment: the namespace binding, the configured page size as the
  string the variable holds, and the property \<open>__TOTAL_URLS__\<close> the orchestrator
  stashes on it.
\<close>

record env =
  CACHE_WARMER_KV :: kv_namespace
  MAX_URLS_PER_RUN :: string
  TOTAL_URLS :: nat

section \<open>Region rotation (storage.js, getNextRegion)\<close>

text \<open>The rotation order: \<open>REGION_ORDER\<close> when it is not empty, the keys of \<open>REGIONS\<close> otherwise.\<close>

definition regionKeys :: "config \<Rightarrow> string list" where
  "regionKeys cfg = (if length (REGION_ORDER cfg) > 0 then REGION_ORDER cfg else Object_keys (REGIONS cfg))"

text \<open>\<open>lastIndexValue !== null ? parseInt(lastIndexValue, 10) : -1\<close>\<close>

definition region_lastIndex :: "kv_value option \<Rightarrow> js_number" where
  "region_lastIndex lastIndexValue =
     (case lastIndexValue of None \<Rightarrow> Some (- 1) | Some v \<Rightarrow> kv_parseInt_radix10 v)"

text \<open>
  The result is what the call hands back and the environment it leaves: \<open>Inl\<close> is a
  thrown error, \<open>Inr None\<close> the value \<open>undefined\<close> (an index outside the array).
\<close>

definition getNextRegion :: "config \<Rightarrow> env \<Rightarrow> (js_error + string option) \<times> env" where
  "getNextRegion cfg env =
     (if length (regionKeys cfg) = 0 then (Inl (Error ''No regions configured''), env)
      else
        (case kv_get (CACHE_WARMER_KV env) ''last_region_index'' of
           Inl err \<Rightarrow> (Inr (array_index (regionKeys cfg) (Some 0)), env)
         | Inr lastIndexValue \<Rightarrow>
             (let lastIndex = region_lastIndex lastIndexValue;
                  nextIndex = js_rem (js_add lastIndex (Some 1)) (length (regionKeys cfg));
                  nextRegion = array_index (regionKeys cfg) nextIndex
              in (case kv_put (CACHE_WARMER_KV env) ''last_region_index'' (Text (String_num nextIndex)) of
                    Inl err \<Rightarrow> (Inr (array_index (regionKeys cfg) (Some 0)), env)
                  | Inr kv' \<Rightarrow> (Inr nextRegion, env\<lparr>CACHE_WARMER_KV := kv'\<rparr>)))))"

text \<open>The handler of \<open>/reset-region\<close>: the cursor is written back to \<open>-1\<close>.\<close>

definition reset_region :: "env \<Rightarrow> (js_error + unit) \<times> env" where
  "reset_region env =
     (case kv_put (CACHE_WARMER_KV env) ''last_region_index'' (Text ''-1'') of
        Inl err \<Rightarrow> (Inl err, env)
      | Inr kv' \<Rightarrow> (Inr (), env\<lparr>CACHE_WARMER_KV := kv'\<rparr>))"

text \<open>Consecutive calls, each on the environment the previous one left.\<close>

fun next_regions :: "nat \<Rightarrow> config \<Rightarrow> env \<Rightarrow> (js_error + string option) list \<times> env" where
  "next_regions 0 cfg env = ([], env)"
| "next_regions (Suc n) cfg env =
     (case getNextRegion cfg env of
        (r, env') \<Rightarrow> (case next_regions n cfg env' of (rs, env'') \<Rightarrow> (r # rs, env'')))"

section \<open>The network\<close>

text \<open>
  What \<open>fetch\<close> resolves to: the status line and headers, and what draining the body
  with \<open>text()\<close> gives (\<open>Inl\<close> when the read rejects). \<open>fetch\<close> itself is a parameter:
  \<open>Inl\<close> for a transport failure, which is the only way it rejects.
\<close>

record response =
  status :: nat
  headers :: "string \<rightharpoonup> string"
  body :: "js_error + string"

type_synonym fetcher = "string \<Rightarrow> js_error + response"

definition ok :: "response \<Rightarrow> bool" where
  "ok r = (200 \<le> status r \<and> status r \<le> 299)"

text \<open>The operator \<open>||\<close> on header values: \<open>null\<close> and the empty string are falsy.\<close>

definition or_else :: "string option \<Rightarrow> string option \<Rightarrow> string option" where
  "or_else a b = (case a of None \<Rightarrow> b | Some s \<Rightarrow> if s = [] then b else Some s)"

definition or_default :: "string option \<Rightarrow> string \<Rightarrow> string" where
  "or_default a d = (case a of None \<Rightarrow> d | Some s \<Rightarrow> if s = [] then d else s)"

section \<open>The regional warming executor (warmer-do.js, handleWarm)\<close>

text \<open>
  One entry of \<open>results.urls\<close>: the detail of a response (\<open>url\<close>, \<open>status\<close>,
  \<open>cacheStatus\<close>, \<open>cfRay\<close>, \<open>targetColo\<close>, \<open>actualColo\<close>, \<open>coloMatch\<close> and
  \<open>regionalMatch\<close>, in this order), or the failure record pushed by the \<open>catch\<close> block
  (\<open>url\<close> and \<open>error\<close>). The \<open>timestamp\<close> fields are wall-clock readings and are left out.
\<close>

datatype url_entry =
  Warmed string nat string string string string bool bool
  | Failed string string

fun entry_url :: "url_entry \<Rightarrow> string" where
  "entry_url (Warmed u st cs ray tc ac cm rm) = u"
| "entry_url (Failed u msg) = u"

fun is_failure :: "url_entry \<Rightarrow> bool" where
  "is_failure (Warmed u st cs ray tc ac cm rm) = False"
| "is_failure (Failed u msg) = True"

record results =
  success :: nat
  failures :: nat
  cacheHit :: nat
  cacheMiss :: nat
  cacheExpired :: nat
  cacheOther :: nat
  coloMatched :: nat
  coloMismatched :: nat
  regionMatched :: nat
  regionMismatched :: nat
  hitRate :: string
  coloMatchRate :: string
  regionMatchRate :: string
  coloBreakdown :: "string \<rightharpoonup> nat"
  urls :: "url_entry list"
  totalUrls :: nat

definition initial_results :: "nat \<Rightarrow> results" where
  "initial_results n =
     \<lparr> success = 0, failures = 0, cacheHit = 0, cacheMiss = 0, cacheExpired = 0, cacheOther = 0,
       coloMatched = 0, coloMismatched = 0, regionMatched = 0, regionMismatched = 0,
       hitRate = ''0.00'', coloMatchRate = ''0.00'', regionMatchRate = ''0.00'',
       coloBreakdown = Map.empty, urls = [], totalUrls = n \<rparr>"

definition cacheStatus_of :: "response \<Rightarrow> string" where
  "cacheStatus_of r =
     or_default (or_else (headers r ''CF-Cache-Status'') (headers r ''cf-cache-status'')) ''UNKNOWN''"

definition cfRay_of :: "response \<Rightarrow> string" where
  "cfRay_of r = or_default (or_else (headers r ''CF-RAY'') (headers r ''cf-ray'')) ''UNKNOWN''"

text \<open>\<open>s.split('-').pop()\<close>: what follows the last hyphen.\<close>

definition split_pop :: "string \<Rightarrow> string" where
  "split_pop s = rev (takeWhile (\<lambda>c. c \<noteq> CHR ''-'') (rev s))"

definition actualColo_of :: "string \<Rightarrow> string" where
  "actualColo_of cfRay = (if CHR ''-'' \<in> set cfRay then split_pop cfRay else ''UNKNOWN'')"

text \<open>
  The three tallies of a response. The breakdown object is read as a map from codes to
  counts; a code that names a property every object inherits is not modelled.
\<close>

definition tally_cache :: "string \<Rightarrow> results \<Rightarrow> results" where
  "tally_cache cacheStatus r =
     (if cacheStatus = ''HIT'' then r\<lparr>cacheHit := cacheHit r + 1\<rparr>
      else if cacheStatus = ''MISS'' then r\<lparr>cacheMiss := cacheMiss r + 1\<rparr>
      else if cacheStatus = ''EXPIRED'' then r\<lparr>cacheExpired := cacheExpired r + 1\<rparr>
      else r\<lparr>cacheOther := cacheOther r + 1\<rparr>)"

definition tally_colo :: "string \<Rightarrow> string \<Rightarrow> results \<Rightarrow> results" where
  "tally_colo targetColo actualColo r =
     (if actualColo \<noteq> ''UNKNOWN'' then
        (let r' = r\<lparr>coloBreakdown :=
                     (coloBreakdown r)(actualColo \<mapsto>
                        (case coloBreakdown r actualColo of None \<Rightarrow> 0 | Some n \<Rightarrow> n) + 1)\<rparr>
         in if actualColo = targetColo then r'\<lparr>coloMatched := coloMatched r' + 1\<rparr>
            else r'\<lparr>coloMismatched := coloMismatched r' + 1\<rparr>)
      else r)"

definition regionalMatch_of :: "string list \<Rightarrow> string \<Rightarrow> bool" where
  "regionalMatch_of regionColos actualColo = (actualColo \<noteq> ''UNKNOWN'' \<and> actualColo \<in> set regionColos)"

definition tally_region :: "bool \<Rightarrow> results \<Rightarrow> results" where
  "tally_region regionalMatch r =
     (if regionalMatch then r\<lparr>regionMatched := regionMatched r + 1\<rparr>
      else r\<lparr>regionMismatched := regionMismatched r + 1\<rparr>)"

definition record_failure :: "string \<Rightarrow> js_error \<Rightarrow> results \<Rightarrow> results" where
  "record_failure urlToWarm err r =
     r\<lparr>failures := failures r + 1, urls := urls r @ [Failed urlToWarm (message err)]\<rparr>"

text \<open>
  The body of the \<open>for\<close> loop. Everything from the header reads to \<open>results.success++\<close>
  runs without a suspension point; \<open>await response.text()\<close> comes after it inside the
  same \<open>try\<close>, so a body read that rejects reaches the \<open>catch\<close> block with the
  response already tallied.
\<close>

definition warm_response :: "string \<Rightarrow> string list \<Rightarrow> string \<Rightarrow> response \<Rightarrow> results \<Rightarrow> results" where
  "warm_response targetColo regionColos urlToWarm resp r =
     (let cacheStatus = cacheStatus_of resp;
          cfRay = cfRay_of resp;
          actualColo = actualColo_of cfRay;
          r1 = tally_cache cacheStatus r;
          exactColoMatch = (actualColo = targetColo);
          r2 = tally_colo targetColo actualColo r1;
          regionalMatch = regionalMatch_of regionColos actualColo;
          r3 = tally_region regionalMatch r2;
          r4 = r3\<lparr>urls := urls r3 @
                  [Warmed urlToWarm (status resp) cacheStatus cfRay targetColo actualColo
                     exactColoMatch regionalMatch]\<rparr>
      in r4\<lparr>success := success r4 + 1\<rparr>)"

definition warm_url :: "fetcher \<Rightarrow> string \<Rightarrow> string list \<Rightarrow> results \<Rightarrow> string \<Rightarrow> results" where
  "warm_url fetch targetColo regionColos r urlToWarm =
     (case fetch urlToWarm of
        Inl err \<Rightarrow> record_failure urlToWarm err r
      | Inr resp \<Rightarrow>
          (let r5 = warm_response targetColo regionColos urlToWarm resp r
           in case body resp of
                Inr txt \<Rightarrow> r5
              | Inl err \<Rightarrow> record_failure urlToWarm err r5))"

definition warm_loop :: "fetcher \<Rightarrow> string \<Rightarrow> string list \<Rightarrow> results \<Rightarrow> string list \<Rightarrow> results" where
  "warm_loop fetch targetColo regionColos r us = foldl (warm_url fetch targetColo regionColos) r us"

text \<open>The four cache-status counters together.\<close>

definition cache_total :: "results \<Rightarrow> nat" where
  "cache_total r = cacheHit r + cacheMiss r + cacheExpired r + cacheOther r"

text \<open>
  \<open>x.toFixed(2)\<close>. JavaScript numbers are IEEE doubles; here they are exact reals,
  and \<open>toFixed\<close> rounds the exact value to the nearest hundredth, a tie going to the
  larger magnitude, as ECMAScript's Number.prototype.toFixed does on the value it is given.
\<close>

definition two_digits :: "nat \<Rightarrow> string" where
  "two_digits n = [digit_char (n div 10 mod 10), digit_char (n mod 10)]"

definition hundredths :: "real \<Rightarrow> nat" where
  "hundredths x = nat \<lfloor>\<bar>x\<bar> * 100 + 1 / 2\<rfloor>"

text \<open>The decimal rendering of \<open>n\<close> hundredths.\<close>

definition fixed2 :: "nat \<Rightarrow> string" where
  "fixed2 n = digits_of (n div 100) @ ''.'' @ two_digits (n mod 100)"

definition toFixed2 :: "real \<Rightarrow> string" where
  "toFixed2 x = (if x < 0 then ''-'' else []) @ fixed2 (hundredths x)"

text \<open>\<open>d ? ((n / d) * 100).toFixed(2) : '0.00'\<close>\<close>

definition rate :: "nat \<Rightarrow> nat \<Rightarrow> string" where
  "rate n d = (if d \<noteq> 0 then toFixed2 (of_nat n / of_nat d * 100) else ''0.00'')"

definition compute_rates :: "results \<Rightarrow> results" where
  "compute_rates r =
     (let totalCached = cacheHit r + cacheExpired r;
          r1 = r\<lparr>hitRate := rate totalCached (success r)\<rparr>;
          coloChecks = coloMatched r1 + coloMismatched r1;
          regionChecks = regionMatched r1 + regionMismatched r1;
          r2 = r1\<lparr>coloMatchRate := rate (coloMatched r1) coloChecks\<rparr>
      in r2\<lparr>regionMatchRate := rate (regionMatched r2) regionChecks\<rparr>)"

section \<open>Persisting a run (storage.js, storeResults and logError)\<close>

text \<open>
  \<open>storeResults\<close> writes the summary under a key qualified by the time of the write and
  under the region's \<open>latest\<close> key. Its \<open>|| 0\<close> guards are the identity on the counters
  it is handed; an empty rate string is replaced by \<open>0.00\<close>. \<open>logError\<close> writes one
  payload. Either call throws when a write rejects.
\<close>

definition storeResults :: "string \<Rightarrow> results \<Rightarrow> nat \<Rightarrow> kv_namespace \<Rightarrow> (js_error + unit) \<times> kv_namespace" where
  "storeResults region r now kv =
     (let key = ''results_'' @ region @ ''_'' @ String_int (int now);
          summ = \<lparr> s_region = region, s_timestamp = Some now,
                   s_success = Some (success r), s_failures = Some (failures r),
                   s_cacheHit = Some (cacheHit r), s_cacheMiss = Some (cacheMiss r),
                   s_cacheExpired = Some (cacheExpired r), s_cacheOther = Some (cacheOther r),
                   s_hitRate = Some (or_default (Some (hitRate r)) ''0.00''),
                   s_coloMatched = Some (coloMatched r), s_coloMismatched = Some (coloMismatched r),
                   s_coloMatchRate = Some (or_default (Some (coloMatchRate r)) ''0.00''),
                   s_coloBreakdown = coloBreakdown r,
                   s_regionMatched = Some (regionMatched r),
                   s_regionMismatched = Some (regionMismatched r),
                   s_regionMatchRate = Some (or_default (Some (regionMatchRate r)) ''0.00''),
                   s_totalUrls = Some (totalUrls r) \<rparr>
      in case kv_put kv key (Summary_json summ) of
           Inl err \<Rightarrow> (Inl err, kv)
         | Inr kv1 \<Rightarrow>
             (case kv_put kv1 (''latest_'' @ region) (Summary_json summ) of
                Inl err \<Rightarrow> (Inl err, kv1)
              | Inr kv2 \<Rightarrow> (Inr (), kv2)))"

definition logError :: "string \<Rightarrow> js_error \<Rightarrow> nat \<Rightarrow> kv_namespace \<Rightarrow> (js_error + unit) \<times> kv_namespace" where
  "logError region err now kv =
     (let key = ''error_'' @ region @ ''_'' @ String_int (int now);
          payload = \<lparr> e_region = region, e_error = message err, e_timestamp = now \<rparr>
      in case kv_put kv key (Error_json payload) of
           Inl e \<Rightarrow> (Inl e, kv)
         | Inr kv1 \<Rightarrow> (Inr (), kv1))"

text \<open>
  The request body the orchestrator posts. The rate limit, the cache TTL and the user
  agent shape the outgoing requests and the pacing only.
\<close>

record warm_request =
  req_urls :: "string list"
  req_regionName :: string
  req_targetColo :: string
  req_totalUrls :: nat

definition lookup_or :: "(string \<times> 'v) list \<Rightarrow> string \<Rightarrow> 'v \<Rightarrow> 'v" where
  "lookup_or obj k d = (case map_of obj k of None \<Rightarrow> d | Some v \<Rightarrow> v)"

text \<open>The result object as it stands after the loop and the rates.\<close>

definition warm_results :: "config \<Rightarrow> fetcher \<Rightarrow> warm_request \<Rightarrow> results" where
  "warm_results cfg fetch req =
     compute_rates
       (warm_loop fetch (req_targetColo req) (lookup_or (REGION_COLOS cfg) (req_regionName req) [])
          (initial_results (req_totalUrls req)) (req_urls req))"

definition handleWarm ::
  "config \<Rightarrow> fetcher \<Rightarrow> nat \<Rightarrow> warm_request \<Rightarrow> kv_namespace \<Rightarrow> (js_error + results) \<times> kv_namespace" where
  "handleWarm cfg fetch now req kv =
     (case storeResults (req_regionName req) (warm_results cfg fetch req) now kv of
        (Inl err, kv') \<Rightarrow> (Inl err, kv')
      | (Inr u, kv') \<Rightarrow> (Inr (warm_results cfg fetch req), kv'))"

section \<open>The orchestrator (index.js)\<close>

text \<open>
  \<open>callRegionalDO\<close>: the region's location hint is looked up, the Durable Object is
  reached through its stub (\<open>stub_fails\<close> says for which hints the dispatch rejects)
  and runs \<open>handleWarm\<close> on the same key-value namespace. A region that is \<open>undefined\<close>
  is looked up under the key \<open>undefined\<close> and, like an \<open>undefined\<close> target colo, is
  dropped by \<open>JSON.stringify\<close>, so that the Durable Object falls back to its defaults.
  The copy the function returns keeps the counters, rates, breakdown and entries of
  the response unchanged (each \<open>??\<close> default guards a field the response always has).
  The messages of the errors thrown for an unreachable or failing Durable Object are
  abridged.
\<close>

definition callRegionalDO ::
  "config \<Rightarrow> fetcher \<Rightarrow> (string \<Rightarrow> bool) \<Rightarrow> nat \<Rightarrow> env \<Rightarrow> string option \<Rightarrow> string list
     \<Rightarrow> (js_error + results) \<times> env" where
  "callRegionalDO cfg fetch stub_fails now env regionName us =
     (case or_else (map_of (DO_REGION_HINTS cfg) (template regionName)) None of
        None \<Rightarrow> (Inl (Error (''No location hint defined for region: '' @ template regionName)), env)
      | Some targetHint \<Rightarrow>
          if stub_fails targetHint then (Inl (Error ''Durable Object unreachable''), env)
          else
            (let req = \<lparr> req_urls = us,
                         req_regionName = (case regionName of None \<Rightarrow> ''Unknown'' | Some n \<Rightarrow> n),
                         req_targetColo = lookup_or (REGIONS cfg) (template regionName) ''UNKNOWN'',
                         req_totalUrls = TOTAL_URLS env \<rparr>
             in case handleWarm cfg fetch now req (CACHE_WARMER_KV env) of
                  (Inl err, kv') \<Rightarrow>
                    (Inl (Error (''DO warm failed: '' @ message err)), env\<lparr>CACHE_WARMER_KV := kv'\<rparr>)
                | (Inr r, kv') \<Rightarrow> (Inr r, env\<lparr>CACHE_WARMER_KV := kv'\<rparr>)))"

text \<open>The pagination cursor of the scheduled handler, piece by piece.\<close>

definition progressKey :: "string option \<Rightarrow> string" where
  "progressKey region = ''progress_'' @ template region"

text \<open>\<open>parseInt(stored || '0')\<close>\<close>

definition lastIndex_of :: "kv_value option \<Rightarrow> js_number" where
  "lastIndex_of stored = (if truthy stored then (case stored of Some v \<Rightarrow> kv_parseInt v | None \<Rightarrow> None) else parseInt ''0'')"

text \<open>\<open>Math.min(startIndex + parseInt(env.MAX_URLS_PER_RUN), allUrls.length)\<close>\<close>

definition endIndex_of :: "env \<Rightarrow> js_number \<Rightarrow> 'a list \<Rightarrow> js_number" where
  "endIndex_of env startIndex allUrls =
     Math_min (js_add startIndex (parseInt (MAX_URLS_PER_RUN env))) (Some (int (length allUrls)))"

text \<open>\<open>endIndex >= allUrls.length ? 0 : endIndex\<close>\<close>

definition newIndex_of :: "js_number \<Rightarrow> 'a list \<Rightarrow> js_number" where
  "newIndex_of endIndex allUrls = (if js_ge endIndex (Some (int (length allUrls))) then Some 0 else endIndex)"

text \<open>
  What a run reports back, for observation: the region it chose, the slice it handed
  to the Durable Object and the result it got.
\<close>

record run_report =
  run_region :: "string option"
  run_urlsToWarm :: "string list"
  run_results :: results

text \<open>
  The \<open>try\<close> block of \<open>scheduled\<close>. \<open>allUrls\<close> is what \<open>getAllUrls()\<close> returned, which
  neither reads nor writes the namespace.
\<close>

definition scheduled_try ::
  "config \<Rightarrow> fetcher \<Rightarrow> (string \<Rightarrow> bool) \<Rightarrow> nat \<Rightarrow> string list \<Rightarrow> env
     \<Rightarrow> (js_error + run_report) \<times> env" where
  "scheduled_try cfg fetch stub_fails now allUrls env =
     (case getNextRegion cfg env of
        (Inl err, env1) \<Rightarrow> (Inl err, env1)
      | (Inr region, env1) \<Rightarrow>
          (let env2 = env1\<lparr>TOTAL_URLS := length allUrls\<rparr>
           in case kv_get (CACHE_WARMER_KV env2) (progressKey region) of
                Inl err \<Rightarrow> (Inl err, env2)
              | Inr stored \<Rightarrow>
                  (let lastIndex = lastIndex_of stored;
                       startIndex = lastIndex;
                       endIndex = endIndex_of env2 startIndex allUrls;
                       urlsToWarm = slice allUrls startIndex endIndex
                   in case callRegionalDO cfg fetch stub_fails now env2 region urlsToWarm of
                        (Inl err, env3) \<Rightarrow> (Inl err, env3)
                      | (Inr r, env3) \<Rightarrow>
                          (let newIndex = newIndex_of endIndex allUrls
                           in case kv_put (CACHE_WARMER_KV env3) (progressKey region)
                                     (Text (String_num newIndex)) of
                                Inl err \<Rightarrow> (Inl err, env3)
                              | Inr kv' \<Rightarrow>
                                  (Inr \<lparr> run_region = region, run_urlsToWarm = urlsToWarm,
                                         run_results = r \<rparr>,
                                   env3\<lparr>CACHE_WARMER_KV := kv'\<rparr>)))))"

text \<open>The \<open>catch\<close> block: the error is logged under \<open>system\<close> and thrown again.\<close>

definition scheduled ::
  "config \<Rightarrow> fetcher \<Rightarrow> (string \<Rightarrow> bool) \<Rightarrow> nat \<Rightarrow> string list \<Rightarrow> env
     \<Rightarrow> (js_error + run_report) \<times> env" where
  "scheduled cfg fetch stub_fails now allUrls env =
     (case scheduled_try cfg fetch stub_fails now allUrls env of
        (Inr rep, env') \<Rightarrow> (Inr rep, env')
      | (Inl err, env') \<Rightarrow>
          (case logError ''system'' err now (CACHE_WARMER_KV env') of
             (Inl err', kv') \<Rightarrow> (Inl err', env'\<lparr>CACHE_WARMER_KV := kv'\<rparr>)
           | (Inr u, kv') \<Rightarrow> (Inl err, env'\<lparr>CACHE_WARMER_KV := kv'\<rparr>)))"

text \<open>
  The \<open>/trigger\<close> branch of the HTTP handler. \<open>Inl\<close> is the 500 response built by its
  \<open>catch\<close> block, \<open>Inr\<close> the run behind the 200 response.
\<close>

definition trigger ::
  "config \<Rightarrow> fetcher \<Rightarrow> (string \<Rightarrow> bool) \<Rightarrow> nat \<Rightarrow> string list \<Rightarrow> bool \<Rightarrow> env
     \<Rightarrow> (js_error + run_report) \<times> env" where
  "trigger cfg fetch stub_fails now allUrls testMode env =
     (let urlCount = (if testMode then Some 5 else parseInt (MAX_URLS_PER_RUN env))
      in case getNextRegion cfg env of
           (Inl err, env1) \<Rightarrow> (Inl err, env1)
         | (Inr region, env1) \<Rightarrow>
             (let env2 = env1\<lparr>TOTAL_URLS := length allUrls\<rparr>;
                  urlsToWarm = slice allUrls (Some 0) urlCount
              in case callRegionalDO cfg fetch stub_fails now env2 region urlsToWarm of
                   (Inl err, env3) \<Rightarrow> (Inl err, env3)
                 | (Inr r, env3) \<Rightarrow>
                     (Inr \<lparr> run_region = region, run_urlsToWarm = urlsToWarm, run_results = r \<rparr>,
                      env3)))"

text \<open>
  One step of the pagination cursor on its own: the read of line 117, the slice of
  lines 119 to 121 and the write of lines 142 and 143 of the scheduled handler, for a
  run whose dispatch in between succeeded.
\<close>

definition pagination_step :: "string \<Rightarrow> string list \<Rightarrow> env \<Rightarrow> (js_error + string list) \<times> env" where
  "pagination_step region allUrls env =
     (case kv_get (CACHE_WARMER_KV env) (progressKey (Some region)) of
        Inl err \<Rightarrow> (Inl err, env)
      | Inr stored \<Rightarrow>
          (let startIndex = lastIndex_of stored;
               endIndex = endIndex_of env startIndex allUrls;
               urlsToWarm = slice allUrls startIndex endIndex;
               newIndex = newIndex_of endIndex allUrls
           in case kv_put (CACHE_WARMER_KV env) (progressKey (Some region)) (Text (String_num newIndex)) of
                Inl err \<Rightarrow> (Inl err, env)
              | Inr kv' \<Rightarrow> (Inr urlsToWarm, env\<lparr>CACHE_WARMER_KV := kv'\<rparr>)))"

text \<open>
  Steps repeated until the cursor is written back to \<open>0\<close>, with the slices in the
  order they were taken. \<open>None\<close> is a cycle that did not complete within the given
  number of steps, \<open>Some (Inl err)\<close> one that a failing read or write broke off.
\<close>

definition is_text :: "string \<Rightarrow> kv_value option \<Rightarrow> bool" where
  "is_text s v = (case v of Some (Text t) \<Rightarrow> t = s | _ \<Rightarrow> False)"

fun run_cycle :: "nat \<Rightarrow> string \<Rightarrow> string list \<Rightarrow> env \<Rightarrow> (js_error + string list list \<times> env) option" where
  "run_cycle 0 region allUrls env = None"
| "run_cycle (Suc n) region allUrls env =
     (case pagination_step region allUrls env of
        (Inl err, env') \<Rightarrow> Some (Inl err)
      | (Inr urlsToWarm, env') \<Rightarrow>
          if is_text ''0'' (entries (CACHE_WARMER_KV env') (progressKey (Some region)))
          then Some (Inr ([urlsToWarm], env'))
          else (case run_cycle n region allUrls env' of
                  None \<Rightarrow> None
                | Some (Inl err) \<Rightarrow> Some (Inl err)
                | Some (Inr (slices, env'')) \<Rightarrow> Some (Inr (urlsToWarm # slices, env''))))"

section \<open>URL discovery (warmer.js)\<close>













section \<open>History (storage.js, getHistoricalData)\<close>






text \<open>
  What \<open>JSON.parse\<close> makes of a stored value: an object with the properties of a summary
  (an error payload is an object that has a region and a timestamp and none of the
  counters), or a value that has no properties at all, which is what the text of a
  number parses to. A text is taken to be JSON when it is a decimal integer, which
  covers every text the worker stores; \<open>None\<close> is the parse error.
\<close>

datatype parsed = Object summary | Other



text \<open>A property read, \<open>undefined\<close> being \<open>None\<close>, and the guard \<open>|| 0\<close>.\<close>

definition property :: "(summary \<Rightarrow> 'a option) \<Rightarrow> parsed \<Rightarrow> 'a option" where
  "property f r = (case r of Object s \<Rightarrow> f s | Other \<Rightarrow> None)"

definition or_0 :: "nat option \<Rightarrow> nat" where
  "or_0 v = (case v of None \<Rightarrow> 0 | Some n \<Rightarrow> n)"

definition timestamp_of :: "parsed \<Rightarrow> nat" where
  "timestamp_of r = or_0 (property s_timestamp r)"






text \<open>
  \<open>allResults.sort((a, b) => (b.timestamp || 0) - (a.timestamp || 0))\<close>; the sort of an
  array is stable.
\<close>

definition sort_newest_first :: "parsed list \<Rightarrow> parsed list" where
  "sort_newest_first rs = sort_key (\<lambda>r. - int (timestamp_of r)) rs"





section \<open>Concrete environments\<close>

definition kv_with :: "(string \<times> kv_value) list \<Rightarrow> (string \<Rightarrow> bool) \<Rightarrow> (string \<Rightarrow> bool) \<Rightarrow> kv_namespace" where
  "kv_with stored gf pf = \<lparr> entries = map_of stored, get_fails = gf, put_fails = pf,
                             list_result = (\<lambda>p l. Inr []) \<rparr>"

definition quiet_kv :: kv_namespace where
  "quiet_kv = kv_with [] (\<lambda>k. False) (\<lambda>k. False)"

definition env_of :: "kv_namespace \<Rightarrow> string \<Rightarrow> env" where
  "env_of kv pageSize = \<lparr> CACHE_WARMER_KV = kv, MAX_URLS_PER_RUN = pageSize, TOTAL_URLS = 0 \<rparr>"


text \<open>
  A small network: a page served from the edge cache, a page that is not found and whose
  response carries no trace header, a page whose body read breaks off after the headers
  (its trace header has no hyphen), and everything else unreachable.
\<close>

definition demo_fetch :: fetcher where
  "demo_fetch u =
     (if u = ''https://a/ok'' then
        Inr \<lparr> status = 200,
              headers = map_of [(''CF-Cache-Status'', ''HIT''), (''CF-RAY'', ''8f2a1b9c-SYD'')],
              body = Inr ''<html></html>'' \<rparr>
      else if u = ''https://a/missing'' then
        Inr \<lparr> status = 404,
              headers = map_of [(''CF-Cache-Status'', ''MISS'')],
              body = Inr ''not found'' \<rparr>
      else if u = ''https://a/cut'' then
        Inr \<lparr> status = 200,
              headers = map_of [(''CF-Cache-Status'', ''EXPIRED''), (''CF-RAY'', ''8f2a1b9c'')],
              body = Inl (Error ''stream closed'') \<rparr>
      else Inl (Error ''connection refused''))"

definition demo_request :: "string list \<Rightarrow> warm_request" where
  "demo_request us = \<lparr> req_urls = us, req_regionName = ''Oceania'', req_targetColo = ''SYD'',
                         req_totalUrls = 40 \<rparr>"

text \<open>
  A catalog of eight URLs, and an environment whose first region in rotation order has
  its pagination cursor at 5, with a page size of 3.
\<close>

definition catalog8 :: "string list" where
  "catalog8 = [''u1'', ''u2'', ''u3'', ''u4'', ''u5'', ''u6'', ''u7'', ''u8'']"

definition paged_env :: env where
  "paged_env = env_of (kv_with [(''progress_Western North America'', Text ''5'')]
                              (\<lambda>k. False) (\<lambda>k. False)) ''3''"






section \<open>Decimal strings and their round trip\<close>

lemma of_char_digit_char: "d < 10 \<Longrightarrow> (of_char (digit_char d) :: nat) = 48 + d"
  by (simp add: digit_char_def)

lemma digit_val_digit_char: "d < 10 \<Longrightarrow> digit_val (digit_char d) = Some d"
  by (simp add: digit_val_def of_char_digit_char)

lemma radix_digit_digit_char: "d < 10 \<Longrightarrow> radix_digit 10 (digit_char d)"
  by (simp add: radix_digit_def digit_val_digit_char)

lemma digits_of_all: "list_all (radix_digit 10) (digits_of n)"
  by (induction n rule: digits_of.induct) (subst digits_of.simps, simp add: radix_digit_digit_char)

lemma digits_of_ne: "digits_of n \<noteq> []"
  by (subst digits_of.simps) simp

lemma radix_value_snoc:
  "radix_value r (ds @ [c]) = r * radix_value r ds + (case digit_val c of None \<Rightarrow> 0 | Some d \<Rightarrow> d)"
  by (simp add: radix_value_def)

lemma radix_value_digits_of: "radix_value 10 (digits_of n) = n"
proof (induction n rule: digits_of.induct)
  case (1 n)
  show ?case
  proof (cases "n < 10")
    case True
    then show ?thesis
      by (subst digits_of.simps) (simp add: radix_value_def digit_val_digit_char)
  next
    case False
    with 1 show ?thesis
      by (subst digits_of.simps) (simp add: radix_value_snoc digit_val_digit_char)
  qed
qed

lemma takeWhile_all: "list_all P xs \<Longrightarrow> takeWhile P xs = xs"
  by (induction xs) auto

lemma parse_digits_digits_of:
  "parse_digits 10 neg (digits_of n) = Some (if neg then - int n else int n)"
  by (simp add: parse_digits_def takeWhile_all digits_of_all digits_of_ne radix_value_digits_of)

lemma hd_digits_of: "\<exists>d cs. d < 10 \<and> digits_of n = digit_char d # cs"
proof (induction n rule: digits_of.induct)
  case (1 n)
  show ?case
  proof (cases "n < 10")
    case True
    then show ?thesis by (subst digits_of.simps) auto
  next
    case False
    with 1 obtain d cs where "d < 10" "digits_of (n div 10) = digit_char d # cs" by auto
    with False show ?thesis by (subst digits_of.simps) auto
  qed
qed

lemma digit_char_plain:
  "d < 10 \<Longrightarrow> \<not> is_space (digit_char d) \<and> digit_char d \<noteq> CHR ''-'' \<and> digit_char d \<noteq> CHR ''+''"
proof -
  assume "d < 10"
  then have "(of_char (digit_char d) :: nat) = 48 + d" by (rule of_char_digit_char)
  then show ?thesis by (auto simp: is_space_def)
qed

lemma parseInt_radix10_String_int: "parseInt_radix10 (String_int i) = Some i"
proof (cases "i < 0")
  case True
  obtain d cs where d: "d < 10" "digits_of (nat (- i)) = digit_char d # cs"
    using hd_digits_of by blast
  have "dropWhile is_space (String_int i) = String_int i"
    using True by (simp add: String_int_def is_space_def)
  moreover have "strip_sign (String_int i) = (True, digits_of (nat (- i)))"
    using True by (simp add: String_int_def strip_sign_def)
  ultimately show ?thesis
    using True by (simp add: parseInt_radix10_def parse_digits_digits_of)
next
  case False
  obtain d cs where d: "d < 10" "digits_of (nat i) = digit_char d # cs"
    using hd_digits_of by blast
  note p = digit_char_plain [OF d(1)]
  have "dropWhile is_space (String_int i) = String_int i"
    using False d p by (simp add: String_int_def)
  moreover have "strip_sign (String_int i) = (False, digits_of (nat i))"
    using False d p by (simp add: String_int_def strip_sign_def)
  ultimately show ?thesis
    using False by (simp add: parseInt_radix10_def parse_digits_digits_of)
qed


subsection \<open>The pagination cycle\<close>

lemma no_hex_prefix: "list_all (radix_digit 10) s \<Longrightarrow> \<not> has_hex_prefix s"
  by (cases s; cases "tl s") (auto simp: has_hex_prefix_def radix_digit_def digit_val_def)

lemma parseInt_String_int: "parseInt (String_int i) = Some i"
proof (cases "i < 0")
  case True
  have "dropWhile is_space (String_int i) = String_int i"
    using True by (simp add: String_int_def is_space_def)
  moreover have "strip_sign (String_int i) = (True, digits_of (nat (- i)))"
    using True by (simp add: String_int_def strip_sign_def)
  ultimately show ?thesis
    using True by (simp add: parseInt_def parse_digits_digits_of no_hex_prefix digits_of_all)
next
  case False
  obtain d cs where d: "d < 10" "digits_of (nat i) = digit_char d # cs"
    using hd_digits_of by blast
  note p = digit_char_plain [OF d(1)]
  have "dropWhile is_space (String_int i) = String_int i"
    using False d p by (simp add: String_int_def)
  moreover have "strip_sign (String_int i) = (False, digits_of (nat i))"
    using False d p by (simp add: String_int_def strip_sign_def)
  ultimately show ?thesis
    using False by (simp add: parseInt_def parse_digits_digits_of no_hex_prefix digits_of_all)
qed

lemma String_int_ne: "String_int i \<noteq> []"
  by (simp add: String_int_def digits_of_ne)

lemma String_int_0: "String_int 0 = ''0''"
  by code_simp

lemma String_int_inj: "String_int i = String_int j \<Longrightarrow> i = j"
  by (metis option.inject parseInt_String_int)

lemma lastIndex_of_String_int: "lastIndex_of (Some (Text (String_int i))) = Some i"
  by (simp add: lastIndex_of_def truthy_def String_int_ne kv_parseInt_def parseInt_String_int)

lemma is_text_0_String_int: "is_text ''0'' (Some (Text (String_int i))) \<longleftrightarrow> i = 0"
  using String_int_inj [of i 0] by (auto simp: is_text_def String_int_0)

lemma cycle_from:
  assumes "\<not> get_fails (CACHE_WARMER_KV env) (progressKey (Some region))"
    and "\<not> put_fails (CACHE_WARMER_KV env) (progressKey (Some region))"
    and "parseInt (MAX_URLS_PER_RUN env) = Some P" and "0 < P"
    and "lastIndex_of (entries (CACHE_WARMER_KV env) (progressKey (Some region))) = Some (int k)"
    and "k \<le> length C" and "length C - k < n"
  shows "\<exists>slices env'. run_cycle n region C env = Some (Inr (slices, env'))
           \<and> concat slices = drop k C
           \<and> is_text ''0'' (entries (CACHE_WARMER_KV env') (progressKey (Some region)))"
  using assms
proof (induction n arbitrary: k env)
  case 0
  then show ?case by simp
next
  case (Suc n)
  let ?key = "progressKey (Some region)"
  let ?e = "min (int k + P) (int (length C))"
  have endI: "endIndex_of env (Some (int k)) C = Some ?e"
    using Suc.prems by (simp add: endIndex_of_def Math_min_def js_add_def)
  have sl: "slice C (Some (int k)) (Some ?e) = take (nat ?e - k) (drop k C)"
    using Suc.prems by (simp add: slice_def relative_index_def Let_def min_def)
  show ?case
  proof (cases "int k + P \<ge> int (length C)")
    case True
    then have e: "?e = int (length C)" by simp
    have new: "newIndex_of (Some ?e) C = Some 0"
      using e by (simp add: newIndex_of_def js_ge_def)
    have step: "pagination_step region C env =
        (Inr (drop k C), env\<lparr>CACHE_WARMER_KV := (CACHE_WARMER_KV env)\<lparr>entries := (entries (CACHE_WARMER_KV env))(?key \<mapsto> Text ''0'')\<rparr>\<rparr>)"
      using Suc.prems endI sl new e
      by (simp add: pagination_step_def kv_get_def kv_put_def Let_def String_num_def String_int_0)
    show ?thesis
      by (simp add: step is_text_def)
  next
    case False
    then have e: "?e = int k + P" by simp
    have new: "newIndex_of (Some ?e) C = Some (int k + P)"
      using False e by (simp add: newIndex_of_def js_ge_def)
    let ?env' = "env\<lparr>CACHE_WARMER_KV := (CACHE_WARMER_KV env)\<lparr>entries := (entries (CACHE_WARMER_KV env))(?key \<mapsto> Text (String_int (int k + P)))\<rparr>\<rparr>"
    have step: "pagination_step region C env = (Inr (take (nat P) (drop k C)), ?env')"
      using Suc.prems endI sl new e
      by (simp add: pagination_step_def kv_get_def kv_put_def Let_def String_num_def nat_add_distrib)
    have nz: "\<not> is_text ''0'' (Some (Text (String_int (int k + P))))"
      using \<open>0 < P\<close> by (simp add: is_text_0_String_int)
    have kP: "int (k + nat P) = int k + P" using \<open>0 < P\<close> by simp
    have "\<exists>slices env'. run_cycle n region C ?env' = Some (Inr (slices, env'))
           \<and> concat slices = drop (k + nat P) C
           \<and> is_text ''0'' (entries (CACHE_WARMER_KV env') ?key)"
    proof (rule Suc.IH)
      show "lastIndex_of (entries (CACHE_WARMER_KV ?env') ?key) = Some (int (k + nat P))"
        using \<open>0 < P\<close> by (simp add: lastIndex_of_String_int)
      show "k + nat P \<le> length C" using False \<open>0 < P\<close> by linarith
      show "length C - (k + nat P) < n" using Suc.prems(7) \<open>0 < P\<close> False by linarith
      show "\<not> get_fails (CACHE_WARMER_KV ?env') ?key" using Suc.prems(1) by simp
      show "\<not> put_fails (CACHE_WARMER_KV ?env') ?key" using Suc.prems(2) by simp
      show "parseInt (MAX_URLS_PER_RUN ?env') = Some P" using Suc.prems(3) by simp
      show "0 < P" by fact
    qed
    then obtain slices env' where r: "run_cycle n region C ?env' = Some (Inr (slices, env'))"
      "concat slices = drop (k + nat P) C"
      "is_text ''0'' (entries (CACHE_WARMER_KV env') ?key)" by blast
    have "take (nat P) (drop k C) @ drop (k + nat P) C = drop k C"
      by (metis add.commute append_take_drop_id drop_drop)
    with r nz show ?thesis
      by (simp add: step)
  qed
qed


subsection \<open>Rotation\<close>

lemma region_lastIndex_String_int: "region_lastIndex (Some (Text (String_int i))) = Some i"
  by (simp add: region_lastIndex_def kv_parseInt_radix10_def parseInt_radix10_String_int)

lemma getNextRegion_step:
  assumes "regionKeys cfg \<noteq> []"
    and "\<not> get_fails (CACHE_WARMER_KV env) ''last_region_index''"
    and "\<not> put_fails (CACHE_WARMER_KV env) ''last_region_index''"
    and "region_lastIndex (entries (CACHE_WARMER_KV env) ''last_region_index'') = Some c"
    and "- 1 \<le> c"
  shows "getNextRegion cfg env =
           (Inr (Some (regionKeys cfg ! (nat (c + 1) mod length (regionKeys cfg)))),
            env\<lparr>CACHE_WARMER_KV := (CACHE_WARMER_KV env)\<lparr>entries :=
               (entries (CACHE_WARMER_KV env))(''last_region_index'' \<mapsto>
                  Text (String_int (int (nat (c + 1) mod length (regionKeys cfg)))))\<rparr>\<rparr>)"
proof -
  let ?N = "length (regionKeys cfg)"
  have N: "0 < ?N" using assms(1) by simp
  have rem: "js_rem (js_add (Some c) (Some 1)) ?N = Some (int (nat (c + 1) mod ?N))"
    using assms(5) N by (simp add: js_rem_def js_add_def zmod_int)
  have idx: "array_index (regionKeys cfg) (Some (int (nat (c + 1) mod ?N)))
               = Some (regionKeys cfg ! (nat (c + 1) mod ?N))"
    using N by (simp add: array_index_def)
  show ?thesis
    using assms(1-4) rem idx
    by (simp add: getNextRegion_def kv_get_def kv_put_def Let_def String_num_def)
qed

lemma next_regions_nth:
  assumes "regionKeys cfg \<noteq> []"
    and "\<not> get_fails (CACHE_WARMER_KV env) ''last_region_index''"
    and "\<not> put_fails (CACHE_WARMER_KV env) ''last_region_index''"
    and "region_lastIndex (entries (CACHE_WARMER_KV env) ''last_region_index'') = Some c"
    and "- 1 \<le> c"
  shows "fst (next_regions n cfg env) =
           map (\<lambda>j. Inr (Some (regionKeys cfg ! ((nat (c + 1) + j) mod length (regionKeys cfg))))) [0..<n]"
  using assms
proof (induction n arbitrary: env c)
  case 0
  then show ?case by simp
next
  case (Suc n)
  let ?N = "length (regionKeys cfg)"
  let ?i = "nat (c + 1) mod ?N"
  let ?env' = "env\<lparr>CACHE_WARMER_KV := (CACHE_WARMER_KV env)\<lparr>entries :=
               (entries (CACHE_WARMER_KV env))(''last_region_index'' \<mapsto> Text (String_int (int ?i)))\<rparr>\<rparr>"
  have step: "getNextRegion cfg env = (Inr (Some (regionKeys cfg ! ?i)), ?env')"
    using Suc.prems by (rule getNextRegion_step)
  have IH: "fst (next_regions n cfg ?env') =
      map (\<lambda>j. Inr (Some (regionKeys cfg ! ((nat (int ?i + 1) + j) mod ?N)))) [0..<n]"
  proof (rule Suc.IH)
    show "region_lastIndex (entries (CACHE_WARMER_KV ?env') ''last_region_index'') = Some (int ?i)"
      by (simp add: region_lastIndex_String_int)
  qed (use Suc.prems in simp_all)
  have shift: "(nat (int ?i + 1) + j) mod ?N = (nat (c + 1) + Suc j) mod ?N" for j
  proof -
    have "nat (int ?i + 1) = Suc ?i" by simp
    then have "(nat (int ?i + 1) + j) mod ?N = (?i + Suc j) mod ?N" by simp
    also have "\<dots> = (nat (c + 1) + Suc j) mod ?N" by (rule mod_add_left_eq)
    finally show ?thesis .
  qed
  have "fst (next_regions (Suc n) cfg env) =
      Inr (Some (regionKeys cfg ! ?i)) # fst (next_regions n cfg ?env')"
    by (simp add: step split: prod.splits)
  also have "\<dots> = Inr (Some (regionKeys cfg ! ((nat (c + 1) + 0) mod ?N)))
      # map (\<lambda>j. Inr (Some (regionKeys cfg ! ((nat (c + 1) + Suc j) mod ?N)))) [0..<n]"
    by (simp add: IH shift)
  also have "\<dots> = map (\<lambda>j. Inr (Some (regionKeys cfg ! ((nat (c + 1) + j) mod ?N)))) (0 # map Suc [0..<n])"
    by (simp add: comp_def)
  also have "0 # map Suc [0..<n] = [0..<Suc n]"
    by (simp add: upt_conv_Cons map_Suc_upt del: upt_Suc)
  finally show ?case .
qed

lemma rotate_as_map: "xs \<noteq> [] \<Longrightarrow> rotate m xs = map (\<lambda>j. xs ! ((m + j) mod length xs)) [0..<length xs]"
  by (rule nth_equalityI) (simp_all add: nth_rotate add.commute)


lemma mset_rotate1: "mset (rotate1 xs) = mset xs"
  by (cases xs) simp_all

lemma mset_rotate: "mset (rotate n xs) = mset xs"
  by (induction n) (simp_all add: mset_rotate1)






text \<open>Resetting the rotation and then asking for the next region gives the first one.\<close>

lemma reset_then_next_region:
  assumes "regionKeys cfg \<noteq> []"
    and "\<not> get_fails (CACHE_WARMER_KV env) ''last_region_index''"
    and "\<not> put_fails (CACHE_WARMER_KV env) ''last_region_index''"
  shows "fst (getNextRegion cfg (snd (reset_region env))) = Inr (Some (hd (regionKeys cfg)))"
proof -
  let ?env' = "env\<lparr>CACHE_WARMER_KV := (CACHE_WARMER_KV env)\<lparr>entries :=
                 (entries (CACHE_WARMER_KV env))(''last_region_index'' \<mapsto> Text ''-1'')\<rparr>\<rparr>"
  have r: "snd (reset_region env) = ?env'"
    using assms(3) by (simp add: reset_region_def kv_put_def)
  have "parseInt_radix10 ''-1'' = Some (- 1)" by code_simp
  then have c: "region_lastIndex (entries (CACHE_WARMER_KV ?env') ''last_region_index'') = Some (- 1)"
    by (simp add: region_lastIndex_def kv_parseInt_radix10_def)
  have "getNextRegion cfg ?env' =
           (Inr (Some (regionKeys cfg ! (nat (- 1 + 1) mod length (regionKeys cfg)))),
            ?env'\<lparr>CACHE_WARMER_KV := (CACHE_WARMER_KV ?env')\<lparr>entries :=
               (entries (CACHE_WARMER_KV ?env'))(''last_region_index'' \<mapsto>
                  Text (String_int (int (nat (- 1 + 1) mod length (regionKeys cfg)))))\<rparr>\<rparr>)"
    using assms c by (intro getNextRegion_step) simp_all
  then show ?thesis
    using assms(1) by (simp add: r hd_conv_nth)
qed

subsection \<open>The loop body of the warming executor, field by field\<close>

lemma record_failure_fields:
  "success (record_failure u e r) = success r"
  "failures (record_failure u e r) = failures r + 1"
  "cacheHit (record_failure u e r) = cacheHit r"
  "cacheMiss (record_failure u e r) = cacheMiss r"
  "cacheExpired (record_failure u e r) = cacheExpired r"
  "cacheOther (record_failure u e r) = cacheOther r"
  "coloMatched (record_failure u e r) = coloMatched r"
  "coloMismatched (record_failure u e r) = coloMismatched r"
  "regionMatched (record_failure u e r) = regionMatched r"
  "regionMismatched (record_failure u e r) = regionMismatched r"
  "coloBreakdown (record_failure u e r) = coloBreakdown r"
  "urls (record_failure u e r) = urls r @ [Failed u (message e)]"
  by (simp_all add: record_failure_def)

lemma tally_cache_sum:
  "cacheHit (tally_cache cs r) + cacheMiss (tally_cache cs r) + cacheExpired (tally_cache cs r)
     + cacheOther (tally_cache cs r)
   = cacheHit r + cacheMiss r + cacheExpired r + cacheOther r + 1"
  by (simp add: tally_cache_def)

lemma tally_cache_other_fields:
  "success (tally_cache cs r) = success r"
  "failures (tally_cache cs r) = failures r"
  "coloMatched (tally_cache cs r) = coloMatched r"
  "coloMismatched (tally_cache cs r) = coloMismatched r"
  "regionMatched (tally_cache cs r) = regionMatched r"
  "regionMismatched (tally_cache cs r) = regionMismatched r"
  "coloBreakdown (tally_cache cs r) = coloBreakdown r"
  "urls (tally_cache cs r) = urls r"
  by (simp_all add: tally_cache_def)

lemma tally_colo_other_fields:
  "success (tally_colo tc ac r) = success r"
  "failures (tally_colo tc ac r) = failures r"
  "cacheHit (tally_colo tc ac r) = cacheHit r"
  "cacheMiss (tally_colo tc ac r) = cacheMiss r"
  "cacheExpired (tally_colo tc ac r) = cacheExpired r"
  "cacheOther (tally_colo tc ac r) = cacheOther r"
  "regionMatched (tally_colo tc ac r) = regionMatched r"
  "regionMismatched (tally_colo tc ac r) = regionMismatched r"
  "urls (tally_colo tc ac r) = urls r"
  by (simp_all add: tally_colo_def Let_def)

lemma tally_colo_unknown: "tally_colo tc ''UNKNOWN'' r = r"
  by (simp add: tally_colo_def)

lemma tally_region_other_fields:
  "success (tally_region m r) = success r"
  "failures (tally_region m r) = failures r"
  "cacheHit (tally_region m r) = cacheHit r"
  "cacheMiss (tally_region m r) = cacheMiss r"
  "cacheExpired (tally_region m r) = cacheExpired r"
  "cacheOther (tally_region m r) = cacheOther r"
  "coloMatched (tally_region m r) = coloMatched r"
  "coloMismatched (tally_region m r) = coloMismatched r"
  "coloBreakdown (tally_region m r) = coloBreakdown r"
  "urls (tally_region m r) = urls r"
  by (simp_all add: tally_region_def)

lemma tally_region_counts:
  "regionMatched (tally_region m r) = regionMatched r + (if m then 1 else 0)"
  "regionMismatched (tally_region m r) = regionMismatched r + (if m then 0 else 1)"
  by (simp_all add: tally_region_def)

lemmas tally_fields = record_failure_fields tally_cache_other_fields tally_colo_other_fields
  tally_region_other_fields tally_region_counts

lemma warm_response_fields:
  "success (warm_response tc rc u resp r) = success r + 1"
  "failures (warm_response tc rc u resp r) = failures r"
  "cacheHit (warm_response tc rc u resp r) + cacheMiss (warm_response tc rc u resp r)
     + cacheExpired (warm_response tc rc u resp r) + cacheOther (warm_response tc rc u resp r)
   = cacheHit r + cacheMiss r + cacheExpired r + cacheOther r + 1"
  "urls (warm_response tc rc u resp r)
   = urls r @ [Warmed u (status resp) (cacheStatus_of resp) (cfRay_of resp) tc
                 (actualColo_of (cfRay_of resp)) (actualColo_of (cfRay_of resp) = tc)
                 (regionalMatch_of rc (actualColo_of (cfRay_of resp)))]"
  "regionMatched (warm_response tc rc u resp r)
   = regionMatched r + (if regionalMatch_of rc (actualColo_of (cfRay_of resp)) then 1 else 0)"
  "regionMismatched (warm_response tc rc u resp r)
   = regionMismatched r + (if regionalMatch_of rc (actualColo_of (cfRay_of resp)) then 0 else 1)"
  using tally_cache_sum [of "cacheStatus_of resp" r]
  by (simp_all add: warm_response_def Let_def tally_fields)

lemma warm_response_unknown:
  assumes "actualColo_of (cfRay_of resp) = ''UNKNOWN''"
  shows "coloBreakdown (warm_response tc rc u resp r) = coloBreakdown r"
    and "coloMatched (warm_response tc rc u resp r) = coloMatched r"
    and "coloMismatched (warm_response tc rc u resp r) = coloMismatched r"
  using assms by (simp_all add: warm_response_def Let_def tally_colo_unknown tally_fields)


subsection \<open>The warming loop and the rates\<close>

lemma warm_url_fetch_failed:
  "fetch u = Inl err \<Longrightarrow> warm_url fetch tc rc r u = record_failure u err r"
  by (simp add: warm_url_def)

lemma warm_url_response:
  "fetch u = Inr resp \<Longrightarrow> body resp = Inr txt
     \<Longrightarrow> warm_url fetch tc rc r u = warm_response tc rc u resp r"
  by (simp add: warm_url_def)

lemma warm_url_body_failed:
  "fetch u = Inr resp \<Longrightarrow> body resp = Inl err
     \<Longrightarrow> warm_url fetch tc rc r u = record_failure u err (warm_response tc rc u resp r)"
  by (simp add: warm_url_def)



lemma warm_loop_append:
  "warm_loop fetch tc rc r (us @ vs) = warm_loop fetch tc rc (warm_loop fetch tc rc r us) vs"
  by (simp add: warm_loop_def)

lemma warm_loop_Cons:
  "warm_loop fetch tc rc r (u # us) = warm_loop fetch tc rc (warm_url fetch tc rc r u) us"
  by (simp add: warm_loop_def)

lemma compute_rates_fields:
  "success (compute_rates r) = success r"
  "failures (compute_rates r) = failures r"
  "cacheHit (compute_rates r) = cacheHit r"
  "cacheMiss (compute_rates r) = cacheMiss r"
  "cacheExpired (compute_rates r) = cacheExpired r"
  "cacheOther (compute_rates r) = cacheOther r"
  "coloMatched (compute_rates r) = coloMatched r"
  "coloMismatched (compute_rates r) = coloMismatched r"
  "regionMatched (compute_rates r) = regionMatched r"
  "regionMismatched (compute_rates r) = regionMismatched r"
  "coloBreakdown (compute_rates r) = coloBreakdown r"
  "urls (compute_rates r) = urls r"
  "hitRate (compute_rates r) = rate (cacheHit r + cacheExpired r) (success r)"
  "coloMatchRate (compute_rates r) = rate (coloMatched r) (coloMatched r + coloMismatched r)"
  "regionMatchRate (compute_rates r) = rate (regionMatched r) (regionMatched r + regionMismatched r)"
  by (simp_all add: compute_rates_def Let_def)




lemma rate_zero: "rate n 0 = ''0.00''"
  by (simp add: rate_def)




lemma cfRay_absent:
  "headers resp ''CF-RAY'' = None \<Longrightarrow> headers resp ''cf-ray'' = None \<Longrightarrow> cfRay_of resp = ''UNKNOWN''"
  by (simp add: cfRay_of_def or_else_def or_default_def)

lemma actualColo_no_hyphen: "CHR ''-'' \<notin> set ray \<Longrightarrow> actualColo_of ray = ''UNKNOWN''"
  by (simp add: actualColo_of_def)

lemma warm_url_regionMatched:
  "regionMatched (warm_url fetch tc rc r u)
   = regionMatched r
     + (case fetch u of
          Inl err \<Rightarrow> 0
        | Inr resp \<Rightarrow> if regionalMatch_of rc (actualColo_of (cfRay_of resp)) then 1 else 0)"
  by (simp add: warm_url_def Let_def tally_fields warm_response_fields split: sum.splits)


lemma warm_url_urls_grow:
  "\<exists>es. urls (warm_url fetch tc rc r u) = urls r @ es \<and> u \<in> entry_url ` set es"
  by (cases "fetch u"; cases "body (projr (fetch u))")
    (auto simp: warm_url_def Let_def tally_fields warm_response_fields)

lemma warm_loop_urls_grow:
  "\<exists>es. urls (warm_loop fetch tc rc r us) = urls r @ es \<and> set us \<subseteq> entry_url ` set es"
proof (induction us arbitrary: r)
  case Nil
  then show ?case by (simp add: warm_loop_def)
next
  case (Cons u us)
  obtain es where es: "urls (warm_url fetch tc rc r u) = urls r @ es" "u \<in> entry_url ` set es"
    using warm_url_urls_grow by blast
  obtain fs where fs: "urls (warm_loop fetch tc rc (warm_url fetch tc rc r u) us)
      = urls (warm_url fetch tc rc r u) @ fs" "set us \<subseteq> entry_url ` set fs"
    using Cons by blast
  have "urls (warm_loop fetch tc rc r (u # us)) = urls r @ (es @ fs)"
    by (simp add: warm_loop_Cons fs es)
  moreover have "set (u # us) \<subseteq> entry_url ` set (es @ fs)"
    using es fs by auto
  ultimately show ?case by blast
qed

lemma warm_loop_covers: "set us \<subseteq> entry_url ` set (urls (warm_loop fetch tc rc r us))"
proof -
  obtain es where "urls (warm_loop fetch tc rc r us) = urls r @ es" "set us \<subseteq> entry_url ` set es"
    using warm_loop_urls_grow by blast
  then show ?thesis by auto
qed

text \<open>A run in which every body read succeeds counts every URL once.\<close>

lemma warm_loop_counts_when_bodies_read:
  assumes "\<And>u resp. u \<in> set us \<Longrightarrow> fetch u = Inr resp \<Longrightarrow> \<exists>txt. body resp = Inr txt"
  shows "success (warm_loop fetch tc rc r us) + failures (warm_loop fetch tc rc r us)
           = success r + failures r + length us
         \<and> length (urls (warm_loop fetch tc rc r us)) = length (urls r) + length us"
  using assms
proof (induction us arbitrary: r)
  case Nil
  then show ?case by (simp add: warm_loop_def)
next
  case (Cons u us)
  have step: "success (warm_url fetch tc rc r u) + failures (warm_url fetch tc rc r u)
                = success r + failures r + 1
              \<and> length (urls (warm_url fetch tc rc r u)) = length (urls r) + 1"
  proof (cases "fetch u")
    case (Inl err)
    then show ?thesis by (simp add: warm_url_fetch_failed tally_fields)
  next
    case (Inr resp)
    then obtain bt where "body resp = Inr bt" using Cons.prems [of u resp] by auto
    with Inr show ?thesis by (simp add: warm_url_response warm_response_fields)
  qed
  have "success (warm_loop fetch tc rc (warm_url fetch tc rc r u) us)
          + failures (warm_loop fetch tc rc (warm_url fetch tc rc r u) us)
        = success (warm_url fetch tc rc r u) + failures (warm_url fetch tc rc r u) + length us
        \<and> length (urls (warm_loop fetch tc rc (warm_url fetch tc rc r u) us))
        = length (urls (warm_url fetch tc rc r u)) + length us"
    by (rule Cons.IH) (use Cons.prems in auto)
  with step show ?case by (simp add: warm_loop_Cons)
qed

lemma digit_char_simps:
  "digit_char 0 = CHR ''0''" "digit_char 1 = CHR ''1''" "digit_char 2 = CHR ''2''"
  "digit_char 3 = CHR ''3''" "digit_char 4 = CHR ''4''" "digit_char 5 = CHR ''5''"
  "digit_char 6 = CHR ''6''" "digit_char 7 = CHR ''7''" "digit_char 8 = CHR ''8''"
  "digit_char 9 = CHR ''9''" "digit_char (Suc 0) = CHR ''1''"
  by code_simp+

lemmas fixed_eval = rate_def toFixed2_def hundredths_def fixed2_def two_digits_def digits_of.simps
  digit_char_simps

lemma rate_examples:
  "rate 2 3 = ''66.67''" "rate 1 3 = ''33.33''" "rate 1 1 = ''100.00''" "rate 0 4 = ''0.00''"
  "rate 1 8 = ''12.50''" "rate 1 800 = ''0.13''"
  by (simp_all add: fixed_eval)

subsection \<open>What scheduled and manual runs do to the pagination cursor\<close>

lemma kv_put_entries:
  "kv_put kv k v = Inr kv' \<Longrightarrow> entries kv' = (entries kv)(k \<mapsto> v)"
  by (auto simp: kv_put_def split: if_splits)

lemma storeResults_progress:
  "entries (snd (storeResults region r now kv)) (progressKey x) = entries kv (progressKey x)"
  by (simp add: storeResults_def Let_def kv_put_def progressKey_def)

lemma logError_progress:
  "entries (snd (logError region err now kv)) (progressKey x) = entries kv (progressKey x)"
  by (simp add: logError_def Let_def kv_put_def progressKey_def)

lemma handleWarm_progress:
  "entries (snd (handleWarm cfg fetch now req kv)) (progressKey x) = entries kv (progressKey x)"
proof -
  obtain s kv' where s: "storeResults (req_regionName req) (warm_results cfg fetch req) now kv = (s, kv')"
    by (cases "storeResults (req_regionName req) (warm_results cfg fetch req) now kv")
  have "entries kv' (progressKey x) = entries kv (progressKey x)"
    using storeResults_progress [of "req_regionName req" "warm_results cfg fetch req" now kv x] s by simp
  then show ?thesis
    by (cases s) (simp_all add: handleWarm_def s)
qed

lemma callRegionalDO_progress:
  "entries (CACHE_WARMER_KV (snd (callRegionalDO cfg fetch sf now env region us))) (progressKey x)
   = entries (CACHE_WARMER_KV env) (progressKey x)"
proof -
  let ?req = "\<lparr> req_urls = us,
                 req_regionName = (case region of None \<Rightarrow> ''Unknown'' | Some n \<Rightarrow> n),
                 req_targetColo = lookup_or (REGIONS cfg) (template region) ''UNKNOWN'',
                 req_totalUrls = TOTAL_URLS env \<rparr>"
  obtain h kv' where h: "handleWarm cfg fetch now ?req (CACHE_WARMER_KV env) = (h, kv')"
    by (cases "handleWarm cfg fetch now ?req (CACHE_WARMER_KV env)")
  have kv': "entries kv' (progressKey x) = entries (CACHE_WARMER_KV env) (progressKey x)"
    using handleWarm_progress [of cfg fetch now ?req "CACHE_WARMER_KV env" x] h by simp
  show ?thesis
  proof (cases "or_else (map_of (DO_REGION_HINTS cfg) (template region)) None")
    case None
    then show ?thesis by (simp add: callRegionalDO_def)
  next
    case (Some targetHint)
    then show ?thesis
      using h kv' by (cases h; cases "sf targetHint") (simp_all add: callRegionalDO_def Let_def)
  qed
qed

lemma callRegionalDO_settings:
  "MAX_URLS_PER_RUN (snd (callRegionalDO cfg fetch sf now env region us)) = MAX_URLS_PER_RUN env"
proof -
  let ?req = "\<lparr> req_urls = us,
                 req_regionName = (case region of None \<Rightarrow> ''Unknown'' | Some n \<Rightarrow> n),
                 req_targetColo = lookup_or (REGIONS cfg) (template region) ''UNKNOWN'',
                 req_totalUrls = TOTAL_URLS env \<rparr>"
  obtain h kv' where h: "handleWarm cfg fetch now ?req (CACHE_WARMER_KV env) = (h, kv')"
    by (cases "handleWarm cfg fetch now ?req (CACHE_WARMER_KV env)")
  show ?thesis
  proof (cases "or_else (map_of (DO_REGION_HINTS cfg) (template region)) None")
    case None
    then show ?thesis by (simp add: callRegionalDO_def)
  next
    case (Some targetHint)
    then show ?thesis
      using h by (cases h; cases "sf targetHint") (simp_all add: callRegionalDO_def Let_def)
  qed
qed

lemma getNextRegion_progress:
  "entries (CACHE_WARMER_KV (snd (getNextRegion cfg env))) (progressKey x)
   = entries (CACHE_WARMER_KV env) (progressKey x)"
  by (auto simp: getNextRegion_def Let_def kv_put_def kv_get_def progressKey_def split: sum.splits)

lemma getNextRegion_settings:
  "MAX_URLS_PER_RUN (snd (getNextRegion cfg env)) = MAX_URLS_PER_RUN env"
  by (auto simp: getNextRegion_def Let_def kv_put_def kv_get_def split: sum.splits)

lemma trigger_progress:
  "entries (CACHE_WARMER_KV (snd (trigger cfg fetch sf now allUrls testMode env))) (progressKey x)
   = entries (CACHE_WARMER_KV env) (progressKey x)"
proof -
  obtain g env1 where g: "getNextRegion cfg env = (g, env1)" by (cases "getNextRegion cfg env")
  have e1: "entries (CACHE_WARMER_KV env1) (progressKey x) = entries (CACHE_WARMER_KV env) (progressKey x)"
    using getNextRegion_progress [of cfg env x] g by simp
  show ?thesis
  proof (cases g)
    case (Inl err)
    with g e1 show ?thesis by (simp add: trigger_def Let_def)
  next
    case (Inr region)
    let ?env2 = "env1\<lparr>TOTAL_URLS := length allUrls\<rparr>"
    let ?us = "slice allUrls (Some 0) (if testMode then Some 5 else parseInt (MAX_URLS_PER_RUN env))"
    obtain c env3 where c: "callRegionalDO cfg fetch sf now ?env2 region ?us = (c, env3)"
      by (cases "callRegionalDO cfg fetch sf now ?env2 region ?us")
    have "entries (CACHE_WARMER_KV env3) (progressKey x) = entries (CACHE_WARMER_KV ?env2) (progressKey x)"
      using callRegionalDO_progress [of cfg fetch sf now ?env2 region ?us x] c by simp
    with e1 have e3: "entries (CACHE_WARMER_KV env3) (progressKey x) = entries (CACHE_WARMER_KV env) (progressKey x)"
      by simp
    show ?thesis
      using g Inr c e3 by (cases c) (simp_all add: trigger_def Let_def)
  qed
qed

lemma trigger_slice:
  assumes "fst (trigger cfg fetch sf now allUrls testMode env) = Inr rep"
  shows "run_urlsToWarm rep = slice allUrls (Some 0) (if testMode then Some 5 else parseInt (MAX_URLS_PER_RUN env))"
proof -
  obtain g env1 where g: "getNextRegion cfg env = (g, env1)" by (cases "getNextRegion cfg env")
  show ?thesis
  proof (cases g)
    case (Inl err)
    with g assms show ?thesis by (simp add: trigger_def Let_def)
  next
    case (Inr region)
    let ?env2 = "env1\<lparr>TOTAL_URLS := length allUrls\<rparr>"
    let ?us = "slice allUrls (Some 0) (if testMode then Some 5 else parseInt (MAX_URLS_PER_RUN env))"
    obtain c env3 where c: "callRegionalDO cfg fetch sf now ?env2 region ?us = (c, env3)"
      by (cases "callRegionalDO cfg fetch sf now ?env2 region ?us")
    show ?thesis
      using g Inr c assms by (cases c) (auto simp: trigger_def Let_def)
  qed
qed

lemma scheduled_success:
  assumes "fst (scheduled cfg fetch sf now allUrls env) = Inr rep"
  shows "run_urlsToWarm rep
           = slice allUrls (lastIndex_of (entries (CACHE_WARMER_KV env) (progressKey (run_region rep))))
               (endIndex_of env (lastIndex_of (entries (CACHE_WARMER_KV env) (progressKey (run_region rep)))) allUrls)
         \<and> entries (CACHE_WARMER_KV (snd (scheduled cfg fetch sf now allUrls env))) (progressKey (run_region rep))
           = Some (Text (String_num (newIndex_of
               (endIndex_of env (lastIndex_of (entries (CACHE_WARMER_KV env) (progressKey (run_region rep)))) allUrls)
               allUrls)))"
proof -
  obtain t env' where t: "scheduled_try cfg fetch sf now allUrls env = (t, env')"
    by (cases "scheduled_try cfg fetch sf now allUrls env")
  have tr: "t = Inr rep" and sch: "scheduled cfg fetch sf now allUrls env = (Inr rep, env')"
    using assms t by (cases t; auto simp: scheduled_def split: prod.splits sum.splits)+
  obtain g env1 where g: "getNextRegion cfg env = (g, env1)" by (cases "getNextRegion cfg env")
  have e1: "entries (CACHE_WARMER_KV env1) (progressKey x) = entries (CACHE_WARMER_KV env) (progressKey x)" for x
    using getNextRegion_progress [of cfg env x] g by simp
  have m1: "MAX_URLS_PER_RUN env1 = MAX_URLS_PER_RUN env"
    using getNextRegion_settings [of cfg env] g by simp
  show ?thesis
  proof (cases g)
    case (Inl err)
    with g t tr show ?thesis by (simp add: scheduled_try_def)
  next
    case (Inr region)
    let ?env2 = "env1\<lparr>TOTAL_URLS := length allUrls\<rparr>"
    let ?key = "progressKey region"
    let ?start = "lastIndex_of (entries (CACHE_WARMER_KV env) ?key)"
    let ?end = "endIndex_of env ?start allUrls"
    let ?us = "slice allUrls ?start ?end"
    have en: "endIndex_of ?env2 ?start allUrls = ?end"
      by (simp add: endIndex_of_def m1)
    show ?thesis
    proof (cases "get_fails (CACHE_WARMER_KV env1) ?key")
      case True
      with g Inr t tr show ?thesis by (simp add: scheduled_try_def Let_def kv_get_def)
    next
      case False
      obtain c env3 where c: "callRegionalDO cfg fetch sf now ?env2 region ?us = (c, env3)"
        by (cases "callRegionalDO cfg fetch sf now ?env2 region ?us")
      have t': "scheduled_try cfg fetch sf now allUrls env =
          (case c of
             Inl err \<Rightarrow> (Inl err, env3)
           | Inr r \<Rightarrow>
               (case kv_put (CACHE_WARMER_KV env3) ?key (Text (String_num (newIndex_of ?end allUrls))) of
                  Inl err \<Rightarrow> (Inl err, env3)
                | Inr kv' \<Rightarrow>
                    (Inr \<lparr> run_region = region, run_urlsToWarm = ?us, run_results = r \<rparr>,
                     env3\<lparr>CACHE_WARMER_KV := kv'\<rparr>)))"
        using g Inr False c
        by (simp add: scheduled_try_def Let_def kv_get_def e1 en cong: sum.case_cong)
      show ?thesis
      proof (cases c)
        case (Inl err)
        with t' t tr show ?thesis by simp
      next
        case r: (Inr r)
        show ?thesis
        proof (cases "kv_put (CACHE_WARMER_KV env3) ?key (Text (String_num (newIndex_of ?end allUrls)))")
          case (Inl err)
          with t' t tr r show ?thesis by simp
        next
          case (Inr kv')
          from t' t tr r Inr have rep: "rep = \<lparr> run_region = region, run_urlsToWarm = ?us, run_results = r \<rparr>"
            and env': "env' = env3\<lparr>CACHE_WARMER_KV := kv'\<rparr>" by simp_all
          have "entries kv' ?key = Some (Text (String_num (newIndex_of ?end allUrls)))"
            using kv_put_entries [OF Inr] by simp
          then show ?thesis
            by (simp add: sch rep env')
        qed
      qed
    qed
  qed
qed


text \<open>
  The pagination step on its own takes the slice a completed scheduled run took and
  leaves the cursor that run left.
\<close>

lemma pagination_step_agrees_with_scheduled:
  assumes "fst (scheduled cfg fetch sf now allUrls env) = Inr rep"
    and "run_region rep = Some region"
    and "pagination_step region allUrls env = (Inr us, env')"
  shows "us = run_urlsToWarm rep
         \<and> entries (CACHE_WARMER_KV env') (progressKey (Some region))
           = entries (CACHE_WARMER_KV (snd (scheduled cfg fetch sf now allUrls env))) (progressKey (Some region))"
proof -
  let ?key = "progressKey (Some region)"
  let ?start = "lastIndex_of (entries (CACHE_WARMER_KV env) ?key)"
  let ?fin = "endIndex_of env ?start allUrls"
  from scheduled_success [OF assms(1)] assms(2)
  have s: "run_urlsToWarm rep = slice allUrls ?start ?fin"
    "entries (CACHE_WARMER_KV (snd (scheduled cfg fetch sf now allUrls env))) ?key
       = Some (Text (String_num (newIndex_of ?fin allUrls)))"
    by simp_all
  from assms(3) have "us = slice allUrls ?start ?fin
      \<and> entries (CACHE_WARMER_KV env') ?key = Some (Text (String_num (newIndex_of ?fin allUrls)))"
    by (auto simp: pagination_step_def kv_get_def kv_put_def Let_def split: if_splits)
  with s show ?thesis by simp
qed

subsection \<open>A scheduled and a manual run, evaluated\<close>

lemma parseInt_examples:
  "parseInt ''0'' = Some 0" "parseInt ''3'' = Some 3" "parseInt ''5'' = Some 5"
  by code_simp+

lemma String_int_examples:
  "String_int 0 = ''0''" "String_int 5 = ''5''" "String_int 8 = ''8''"
  by code_simp+

lemma paged_env_next_region:
  "getNextRegion s5_config paged_env
     = (Inr (Some ''Western North America''),
        paged_env\<lparr>CACHE_WARMER_KV := (CACHE_WARMER_KV paged_env)\<lparr>entries :=
           (entries (CACHE_WARMER_KV paged_env))(''last_region_index'' \<mapsto> Text ''0'')\<rparr>\<rparr>)"
proof -
  have k: "regionKeys s5_config \<noteq> []" by (simp add: regionKeys_def s5_config_def)
  have "getNextRegion s5_config paged_env =
           (Inr (Some (regionKeys s5_config ! (nat (- 1 + 1) mod length (regionKeys s5_config)))),
            paged_env\<lparr>CACHE_WARMER_KV := (CACHE_WARMER_KV paged_env)\<lparr>entries :=
               (entries (CACHE_WARMER_KV paged_env))(''last_region_index'' \<mapsto>
                  Text (String_int (int (nat (- 1 + 1) mod length (regionKeys s5_config)))))\<rparr>\<rparr>)"
    by (rule getNextRegion_step [OF k])
      (simp_all add: paged_env_def env_of_def kv_with_def region_lastIndex_def)
  then show ?thesis
    by (simp add: regionKeys_def s5_config_def String_int_examples)
qed

lemma callRegionalDO_succeeds:
  assumes "map_of (DO_REGION_HINTS cfg) region = Some hint" and "hint \<noteq> []" and "\<not> sf hint"
    and "\<And>k. \<not> put_fails (CACHE_WARMER_KV env) k"
  shows "\<exists>r env'. callRegionalDO cfg fetch sf now env (Some region) us = (Inr r, env')
           \<and> put_fails (CACHE_WARMER_KV env') = put_fails (CACHE_WARMER_KV env)
           \<and> get_fails (CACHE_WARMER_KV env') = get_fails (CACHE_WARMER_KV env)"
  using assms
  by (simp add: callRegionalDO_def or_else_def template_def Let_def handleWarm_def storeResults_def kv_put_def)

lemma paged_env_dispatch:
  assumes "\<And>k. \<not> put_fails (CACHE_WARMER_KV env) k"
  shows "\<exists>r env'. callRegionalDO s5_config demo_fetch (\<lambda>h. False) now env (Some ''Western North America'') us
                     = (Inr r, env')
           \<and> put_fails (CACHE_WARMER_KV env') = put_fails (CACHE_WARMER_KV env)
           \<and> get_fails (CACHE_WARMER_KV env') = get_fails (CACHE_WARMER_KV env)"
proof (rule callRegionalDO_succeeds [where hint = "''wnam''"])
  show "map_of (DO_REGION_HINTS s5_config) ''Western North America'' = Some ''wnam''"
    by (simp add: s5_config_def)
qed (use assms in simp_all)

lemma trigger_run:
  assumes "getNextRegion cfg env = (Inr region, env1)"
    and "callRegionalDO cfg fetch sf now (env1\<lparr>TOTAL_URLS := length allUrls\<rparr>) region
           (slice allUrls (Some 0) (if testMode then Some 5 else parseInt (MAX_URLS_PER_RUN env)))
         = (Inr r, env3)"
  shows "trigger cfg fetch sf now allUrls testMode env
         = (Inr \<lparr> run_region = region,
                  run_urlsToWarm = slice allUrls (Some 0) (if testMode then Some 5 else parseInt (MAX_URLS_PER_RUN env)),
                  run_results = r \<rparr>, env3)"
  using assms by (simp add: trigger_def Let_def)

lemma scheduled_run:
  assumes "getNextRegion cfg env = (Inr region, env1)"
    and "\<not> get_fails (CACHE_WARMER_KV env1) (progressKey region)"
    and "lastIndex_of (entries (CACHE_WARMER_KV env1) (progressKey region)) = start"
    and "endIndex_of env1 start allUrls = fin"
    and "callRegionalDO cfg fetch sf now (env1\<lparr>TOTAL_URLS := length allUrls\<rparr>) region
           (slice allUrls start fin) = (Inr r, env3)"
    and "kv_put (CACHE_WARMER_KV env3) (progressKey region) (Text (String_num (newIndex_of fin allUrls)))
         = Inr kv'"
  shows "scheduled cfg fetch sf now allUrls env
         = (Inr \<lparr> run_region = region, run_urlsToWarm = slice allUrls start fin, run_results = r \<rparr>,
            env3\<lparr>CACHE_WARMER_KV := kv'\<rparr>)"
proof -
  have "endIndex_of (env1\<lparr>TOTAL_URLS := length allUrls\<rparr>) start allUrls = fin"
    using assms(4) by (simp add: endIndex_of_def)
  then have "scheduled_try cfg fetch sf now allUrls env
         = (Inr \<lparr> run_region = region, run_urlsToWarm = slice allUrls start fin, run_results = r \<rparr>,
            env3\<lparr>CACHE_WARMER_KV := kv'\<rparr>)"
    using assms by (simp add: scheduled_try_def Let_def kv_get_def)
  then show ?thesis by (simp add: scheduled_def)
qed

lemma paged_env_trigger:
  "\<exists>r env'. trigger s5_config demo_fetch (\<lambda>h. False) 0 catalog8 True paged_env
      = (Inr \<lparr> run_region = Some ''Western North America'',
               run_urlsToWarm = [''u1'', ''u2'', ''u3'', ''u4'', ''u5''], run_results = r \<rparr>, env')"
proof -
  let ?env1 = "paged_env\<lparr>CACHE_WARMER_KV := (CACHE_WARMER_KV paged_env)\<lparr>entries :=
           (entries (CACHE_WARMER_KV paged_env))(''last_region_index'' \<mapsto> Text ''0'')\<rparr>\<rparr>"
  let ?E = "?env1\<lparr>TOTAL_URLS := length catalog8\<rparr>"
  let ?US = "slice catalog8 (Some 0) (if True then Some 5 else parseInt (MAX_URLS_PER_RUN paged_env))"
  have "\<And>k. \<not> put_fails (CACHE_WARMER_KV ?E) k"
    by (simp add: paged_env_def env_of_def kv_with_def)
  then obtain r env3 where
    "callRegionalDO s5_config demo_fetch (\<lambda>h. False) 0 ?E (Some ''Western North America'') ?US = (Inr r, env3)"
    using paged_env_dispatch [of ?E 0 ?US] by blast
  from trigger_run [OF paged_env_next_region this]
  have "trigger s5_config demo_fetch (\<lambda>h. False) 0 catalog8 True paged_env
         = (Inr \<lparr> run_region = Some ''Western North America'', run_urlsToWarm = ?US, run_results = r \<rparr>, env3)" .
  moreover have "?US = [''u1'', ''u2'', ''u3'', ''u4'', ''u5'']"
    by (simp add: slice_def relative_index_def catalog8_def)
  ultimately show ?thesis by simp
qed

lemma paged_env_scheduled:
  "\<exists>r env'. scheduled s5_config demo_fetch (\<lambda>h. False) 0 catalog8 paged_env
      = (Inr \<lparr> run_region = Some ''Western North America'',
               run_urlsToWarm = [''u6'', ''u7'', ''u8''], run_results = r \<rparr>, env')"
proof -
  let ?env1 = "paged_env\<lparr>CACHE_WARMER_KV := (CACHE_WARMER_KV paged_env)\<lparr>entries :=
           (entries (CACHE_WARMER_KV paged_env))(''last_region_index'' \<mapsto> Text ''0'')\<rparr>\<rparr>"
  let ?E = "?env1\<lparr>TOTAL_URLS := length catalog8\<rparr>"
  let ?key = "progressKey (Some ''Western North America'')"
  let ?US = "slice catalog8 (Some 5) (Some 8)"
  have st: "lastIndex_of (entries (CACHE_WARMER_KV ?env1) ?key) = Some 5"
    by (simp add: paged_env_def env_of_def kv_with_def progressKey_def template_def lastIndex_of_def
        truthy_def kv_parseInt_def parseInt_examples)
  have en: "endIndex_of ?env1 (Some 5) catalog8 = Some 8"
    by (simp add: paged_env_def env_of_def endIndex_of_def parseInt_examples Math_min_def js_add_def
        catalog8_def)
  have gf: "\<not> get_fails (CACHE_WARMER_KV ?env1) ?key"
    by (simp add: paged_env_def env_of_def kv_with_def)
  have pf: "\<And>k. \<not> put_fails (CACHE_WARMER_KV ?E) k"
    by (simp add: paged_env_def env_of_def kv_with_def)
  obtain r env3 where c:
    "callRegionalDO s5_config demo_fetch (\<lambda>h. False) 0 ?E (Some ''Western North America'') ?US = (Inr r, env3)"
    "put_fails (CACHE_WARMER_KV env3) = put_fails (CACHE_WARMER_KV ?E)"
    using paged_env_dispatch [of ?E 0 ?US, OF pf] by blast
  have "\<not> put_fails (CACHE_WARMER_KV env3) ?key"
    using c(2) pf by simp
  then obtain kv' where
    "kv_put (CACHE_WARMER_KV env3) ?key (Text (String_num (newIndex_of (Some 8) catalog8))) = Inr kv'"
    by (simp add: kv_put_def)
  from scheduled_run [OF paged_env_next_region gf st en c(1) this]
  have "scheduled s5_config demo_fetch (\<lambda>h. False) 0 catalog8 paged_env
         = (Inr \<lparr> run_region = Some ''Western North America'', run_urlsToWarm = ?US, run_results = r \<rparr>,
            env3\<lparr>CACHE_WARMER_KV := kv'\<rparr>)" .
  moreover have "?US = [''u6'', ''u7'', ''u8'']"
    by (simp add: slice_def relative_index_def catalog8_def)
  ultimately show ?thesis by simp
qed


subsection \<open>Discovery\<close>













subsection \<open>History\<close>







text \<open>Results with the same timestamp stay in the order they were fetched in.\<close>

lemma sort_newest_first_stable:
  "filter (\<lambda>r. timestamp_of r = t) (sort_newest_first rs) = filter (\<lambda>r. timestamp_of r = t) rs"
  using sort_key_stable [of "\<lambda>r. - int (timestamp_of r)" "- int t" rs]
  by (simp add: sort_newest_first_def)





section \<open>The pagination cursor\<close>

text \<open>
  Claim C1. For every catalog and every page size \<open>P > 0\<close>, pagination steps repeated
  from a persisted offset that reads as 0 (absent, or the text \<open>0\<close>) complete a cycle
  within \<open>length C + 1\<close> steps when the cursor's key can be read and written; the slices
  taken, one after the other, are the catalog itself, so every element is visited
  exactly once and in order, and the persisted offset reads as 0 again at the end.
\<close>

theorem pagination_cycle_visits_catalog_once:
  assumes "\<not> get_fails (CACHE_WARMER_KV env) (progressKey (Some region))"
    and "\<not> put_fails (CACHE_WARMER_KV env) (progressKey (Some region))"
    and "parseInt (MAX_URLS_PER_RUN env) = Some P" and "0 < P"
    and "lastIndex_of (entries (CACHE_WARMER_KV env) (progressKey (Some region))) = Some 0"
  shows "\<exists>slices env'. run_cycle (Suc (length C)) region C env = Some (Inr (slices, env'))
           \<and> concat slices = C
           \<and> lastIndex_of (entries (CACHE_WARMER_KV env') (progressKey (Some region))) = Some 0"
proof -
  have "\<exists>slices env'. run_cycle (Suc (length C)) region C env = Some (Inr (slices, env'))
           \<and> concat slices = drop 0 C
           \<and> is_text ''0'' (entries (CACHE_WARMER_KV env') (progressKey (Some region)))"
    using assms by (intro cycle_from [where P = P]) simp_all
  then obtain slices env' where r: "run_cycle (Suc (length C)) region C env = Some (Inr (slices, env'))"
    "concat slices = C" "is_text ''0'' (entries (CACHE_WARMER_KV env') (progressKey (Some region)))"
    by auto
  from r(3) have "entries (CACHE_WARMER_KV env') (progressKey (Some region)) = Some (Text (String_int 0))"
    by (auto simp: is_text_def String_int_0 split: option.splits kv_value.splits)
  then have "lastIndex_of (entries (CACHE_WARMER_KV env') (progressKey (Some region))) = Some 0"
    by (simp only: lastIndex_of_String_int)
  with r show ?thesis by blast
qed

theorem pagination_cycle_visits_catalog_once_witness:
  "\<exists>slices env'.
      run_cycle (Suc (length [''u1'', ''u2'', ''u3'', ''u4'', ''u5'', ''u6'', ''u7'']))
        ''Oceania'' [''u1'', ''u2'', ''u3'', ''u4'', ''u5'', ''u6'', ''u7''] (env_of quiet_kv ''3'')
        = Some (Inr (slices, env'))
      \<and> concat slices = [''u1'', ''u2'', ''u3'', ''u4'', ''u5'', ''u6'', ''u7'']
      \<and> lastIndex_of (entries (CACHE_WARMER_KV env') (progressKey (Some ''Oceania''))) = Some 0"
proof (rule pagination_cycle_visits_catalog_once [where P = 3])
  show "\<not> get_fails (CACHE_WARMER_KV (env_of quiet_kv ''3'')) (progressKey (Some ''Oceania''))"
    by (simp add: env_of_def quiet_kv_def kv_with_def)
  show "\<not> put_fails (CACHE_WARMER_KV (env_of quiet_kv ''3'')) (progressKey (Some ''Oceania''))"
    by (simp add: env_of_def quiet_kv_def kv_with_def)
  show "parseInt (MAX_URLS_PER_RUN (env_of quiet_kv ''3'')) = Some 3"
    by code_simp
  show "(0::int) < 3" by simp
  show "lastIndex_of (entries (CACHE_WARMER_KV (env_of quiet_kv ''3'')) (progressKey (Some ''Oceania''))) = Some 0"
    by code_simp
qed

section \<open>Region rotation\<close>

text \<open>
  Claim C5. With a non-empty region list, a cursor key that can be read and written and
  a persisted cursor \<open>c \<ge> -1\<close> (an absent cursor reads as \<open>-1\<close>), a call to
  \<open>getNextRegion\<close> returns the region at index \<open>(c + 1) mod N\<close> and leaves that index
  persisted; \<open>N\<close> consecutive calls return the region list rotated, hence each of its
  entries exactly once, and the call after them returns what the first one did.
\<close>

theorem region_rotation_round_robin:
  assumes "regionKeys cfg \<noteq> []"
    and "\<not> get_fails (CACHE_WARMER_KV env) ''last_region_index''"
    and "\<not> put_fails (CACHE_WARMER_KV env) ''last_region_index''"
    and "region_lastIndex (entries (CACHE_WARMER_KV env) ''last_region_index'') = Some c"
    and "- 1 \<le> c"
  shows "fst (getNextRegion cfg env)
           = Inr (array_index (regionKeys cfg) (Some ((c + 1) mod int (length (regionKeys cfg)))))
         \<and> array_index (regionKeys cfg) (Some ((c + 1) mod int (length (regionKeys cfg))))
           = Some (regionKeys cfg ! nat ((c + 1) mod int (length (regionKeys cfg))))
         \<and> entries (CACHE_WARMER_KV (snd (getNextRegion cfg env))) ''last_region_index''
           = Some (Text (String_int ((c + 1) mod int (length (regionKeys cfg)))))
         \<and> fst (next_regions (length (regionKeys cfg)) cfg env)
           = map (\<lambda>r. Inr (Some r)) (rotate (nat (c + 1)) (regionKeys cfg))
         \<and> mset (fst (next_regions (length (regionKeys cfg)) cfg env))
           = mset (map (\<lambda>r. Inr (Some r)) (regionKeys cfg))
         \<and> fst (next_regions (Suc (length (regionKeys cfg))) cfg env) ! length (regionKeys cfg)
           = fst (next_regions (Suc (length (regionKeys cfg))) cfg env) ! 0"
proof -
  let ?keys = "regionKeys cfg"
  let ?N = "length ?keys"
  have N: "0 < ?N" using assms(1) by simp
  have m: "(c + 1) mod int ?N = int (nat (c + 1) mod ?N)"
    using assms(5) by (simp add: zmod_int)
  have lt: "nat (c + 1) mod ?N < ?N" using N by simp
  note step = getNextRegion_step [OF assms]
  have a: "fst (getNextRegion cfg env) = Inr (array_index ?keys (Some ((c + 1) mod int ?N)))"
    using lt by (simp add: step m array_index_def)
  have b: "array_index ?keys (Some ((c + 1) mod int ?N)) = Some (?keys ! nat ((c + 1) mod int ?N))"
    using lt by (simp add: m array_index_def)
  have c: "entries (CACHE_WARMER_KV (snd (getNextRegion cfg env))) ''last_region_index''
             = Some (Text (String_int ((c + 1) mod int ?N)))"
    by (simp add: step m)
  have rot: "fst (next_regions ?N cfg env) = map (\<lambda>r. Inr (Some r)) (rotate (nat (c + 1)) ?keys)"
    by (simp add: next_regions_nth [OF assms] rotate_as_map [OF assms(1)] comp_def)
  have ms: "mset (fst (next_regions ?N cfg env)) = mset (map (\<lambda>r. Inr (Some r)) ?keys)"
    by (simp add: rot mset_rotate)
  define f where "f = (\<lambda>j. (Inr (Some (?keys ! ((nat (c + 1) + j) mod ?N))) :: js_error + string option))"
  have all: "fst (next_regions (Suc ?N) cfg env) = map f [0..<Suc ?N]"
    unfolding f_def by (rule next_regions_nth [OF assms])
  have n1: "fst (next_regions (Suc ?N) cfg env) ! ?N = f ?N"
    unfolding all using nth_map_upt [of ?N "Suc ?N" 0 f] by simp
  have n0: "fst (next_regions (Suc ?N) cfg env) ! 0 = f 0"
    unfolding all using nth_map_upt [of 0 "Suc ?N" 0 f] by simp
  have "f ?N = f 0" by (simp add: f_def)
  then have again: "fst (next_regions (Suc ?N) cfg env) ! ?N = fst (next_regions (Suc ?N) cfg env) ! 0"
    by (simp only: n1 n0)
  from a b c rot ms again show ?thesis by blast
qed

theorem region_rotation_round_robin_witness:
  "fst (getNextRegion s5_config (env_of quiet_kv ''100''))
     = Inr (array_index (regionKeys s5_config) (Some ((- 1 + 1) mod int (length (regionKeys s5_config)))))
   \<and> array_index (regionKeys s5_config) (Some ((- 1 + 1) mod int (length (regionKeys s5_config))))
     = Some (regionKeys s5_config ! nat ((- 1 + 1) mod int (length (regionKeys s5_config))))
   \<and> entries (CACHE_WARMER_KV (snd (getNextRegion s5_config (env_of quiet_kv ''100'')))) ''last_region_index''
     = Some (Text (String_int ((- 1 + 1) mod int (length (regionKeys s5_config)))))
   \<and> fst (next_regions (length (regionKeys s5_config)) s5_config (env_of quiet_kv ''100''))
     = map (\<lambda>r. Inr (Some r)) (rotate (nat (- 1 + 1)) (regionKeys s5_config))
   \<and> mset (fst (next_regions (length (regionKeys s5_config)) s5_config (env_of quiet_kv ''100'')))
     = mset (map (\<lambda>r. Inr (Some r)) (regionKeys s5_config))
   \<and> fst (next_regions (Suc (length (regionKeys s5_config))) s5_config (env_of quiet_kv ''100''))
        ! length (regionKeys s5_config)
     = fst (next_regions (Suc (length (regionKeys s5_config))) s5_config (env_of quiet_kv ''100'')) ! 0"
proof (rule region_rotation_round_robin)
  show "regionKeys s5_config \<noteq> []"
    by (simp add: regionKeys_def s5_config_def)
  show "\<not> get_fails (CACHE_WARMER_KV (env_of quiet_kv ''100'')) ''last_region_index''"
    by (simp add: env_of_def quiet_kv_def kv_with_def)
  show "\<not> put_fails (CACHE_WARMER_KV (env_of quiet_kv ''100'')) ''last_region_index''"
    by (simp add: env_of_def quiet_kv_def kv_with_def)
  show "region_lastIndex (entries (CACHE_WARMER_KV (env_of quiet_kv ''100'')) ''last_region_index'') = Some (- 1)"
    by (simp add: env_of_def quiet_kv_def kv_with_def region_lastIndex_def)
  show "- 1 \<le> (- 1 :: int)" by simp
qed



section \<open>The warming executor\<close>

text \<open>
  Claim C2. A response whose trace header value (CF-RAY, else cf-ray, else the default)
  has no hyphen, which includes the header being absent, gives the observed location
  \<open>UNKNOWN\<close>: the URL leaves the location breakdown and both exact-match counters as
  they were and adds one to the regional-mismatch counter, not to the regional-match
  counter. The regional-match counter goes up, and then by one, exactly when the URL was
  answered with an observed code other than \<open>UNKNOWN\<close> that is in the region's list.
\<close>

theorem unknown_location_tally:
  "(fetch u = Inr resp \<and> CHR ''-'' \<notin> set (cfRay_of resp) \<longrightarrow>
       actualColo_of (cfRay_of resp) = ''UNKNOWN''
     \<and> coloBreakdown (warm_url fetch tc rc r u) = coloBreakdown r
     \<and> coloMatched (warm_url fetch tc rc r u) = coloMatched r
     \<and> coloMismatched (warm_url fetch tc rc r u) = coloMismatched r
     \<and> regionMatched (warm_url fetch tc rc r u) = regionMatched r
     \<and> regionMismatched (warm_url fetch tc rc r u) = regionMismatched r + 1)
   \<and> (headers resp ''CF-RAY'' = None \<and> headers resp ''cf-ray'' = None \<longrightarrow>
        CHR ''-'' \<notin> set (cfRay_of resp))
   \<and> (regionMatched (warm_url fetch tc rc r u) = regionMatched r + 1 \<longleftrightarrow>
        (\<exists>resp'. fetch u = Inr resp' \<and> actualColo_of (cfRay_of resp') \<noteq> ''UNKNOWN''
                  \<and> actualColo_of (cfRay_of resp') \<in> set rc))
   \<and> (regionMatched (warm_url fetch tc rc r u) = regionMatched r + 1
        \<or> regionMatched (warm_url fetch tc rc r u) = regionMatched r)"
proof -
  have a: "actualColo_of (cfRay_of resp) = ''UNKNOWN''
     \<and> coloBreakdown (warm_url fetch tc rc r u) = coloBreakdown r
     \<and> coloMatched (warm_url fetch tc rc r u) = coloMatched r
     \<and> coloMismatched (warm_url fetch tc rc r u) = coloMismatched r
     \<and> regionMatched (warm_url fetch tc rc r u) = regionMatched r
     \<and> regionMismatched (warm_url fetch tc rc r u) = regionMismatched r + 1"
    if f: "fetch u = Inr resp" and h: "CHR ''-'' \<notin> set (cfRay_of resp)"
  proof -
    have unk: "actualColo_of (cfRay_of resp) = ''UNKNOWN''"
      using h by (rule actualColo_no_hyphen)
    have nom: "\<not> regionalMatch_of rc (actualColo_of (cfRay_of resp))"
      by (simp add: unk regionalMatch_of_def)
    show ?thesis
      using unk nom f
      by (cases "body resp")
        (simp_all add: warm_url_def Let_def tally_fields warm_response_fields
          warm_response_unknown)
  qed
  have b: "CHR ''-'' \<notin> set (cfRay_of resp)"
    if "headers resp ''CF-RAY'' = None" "headers resp ''cf-ray'' = None"
    using that by (simp add: cfRay_absent)
  have c: "regionMatched (warm_url fetch tc rc r u) = regionMatched r + 1 \<longleftrightarrow>
        (\<exists>resp'. fetch u = Inr resp' \<and> actualColo_of (cfRay_of resp') \<noteq> ''UNKNOWN''
                  \<and> actualColo_of (cfRay_of resp') \<in> set rc)"
    by (cases "fetch u") (auto simp: warm_url_regionMatched regionalMatch_of_def)
  have d: "regionMatched (warm_url fetch tc rc r u) = regionMatched r + 1
        \<or> regionMatched (warm_url fetch tc rc r u) = regionMatched r"
    by (cases "fetch u") (auto simp: warm_url_regionMatched)
  from a b c d show ?thesis by blast
qed


theorem unknown_location_tally_witness:
  "actualColo_of (cfRay_of \<lparr> status = 404, headers = map_of [(''CF-Cache-Status'', ''MISS'')],
                             body = Inr ''not found'' \<rparr>) = ''UNKNOWN''
   \<and> coloBreakdown (warm_url demo_fetch ''SYD'' [''SYD'', ''MEL''] (initial_results 0) ''https://a/missing'')
       = coloBreakdown (initial_results 0)
   \<and> coloMatched (warm_url demo_fetch ''SYD'' [''SYD'', ''MEL''] (initial_results 0) ''https://a/missing'')
       = coloMatched (initial_results 0)
   \<and> coloMismatched (warm_url demo_fetch ''SYD'' [''SYD'', ''MEL''] (initial_results 0) ''https://a/missing'')
       = coloMismatched (initial_results 0)
   \<and> regionMatched (warm_url demo_fetch ''SYD'' [''SYD'', ''MEL''] (initial_results 0) ''https://a/missing'')
       = regionMatched (initial_results 0)
   \<and> regionMismatched (warm_url demo_fetch ''SYD'' [''SYD'', ''MEL''] (initial_results 0) ''https://a/missing'')
       = regionMismatched (initial_results 0) + 1"
proof -
  let ?resp = "\<lparr> status = 404, headers = map_of [(''CF-Cache-Status'', ''MISS'')],
                 body = Inr ''not found'' \<rparr> :: response"
  have f: "demo_fetch ''https://a/missing'' = Inr ?resp"
    by (simp add: demo_fetch_def)
  have h1: "headers ?resp ''CF-RAY'' = None" by simp
  have h2: "headers ?resp ''cf-ray'' = None" by simp
  from unknown_location_tally
    [of demo_fetch "''https://a/missing''" ?resp "''SYD''" "[''SYD'', ''MEL'']" "initial_results 0"]
    f h1 h2
  show ?thesis by blast
qed


text \<open>
  Claim C4, as the code has it. A URL whose \<open>fetch\<close> rejects adds one to the failures
  counter and one failure entry and changes nothing else; a body read that rejects is
  recorded as a failure entry too. A response that arrives and can be read is tallied
  as a success whatever its HTTP status, the status being kept in the detail entry, and
  leaves the failures counter alone. The loop goes on after every URL: the run over a
  list is the run over what follows a URL, started from the state that URL left, and
  every URL of the list has an entry in the result.
\<close>

theorem transport_failure_recorded_and_run_continues:
  "(fetch u = Inl err \<longrightarrow>
      warm_url fetch tc rc r u
        = r\<lparr>failures := failures r + 1, urls := urls r @ [Failed u (message err)]\<rparr>)
   \<and> (fetch u = Inr resp \<and> body resp = Inl err \<longrightarrow>
        failures (warm_url fetch tc rc r u) = failures r + 1
      \<and> last (urls (warm_url fetch tc rc r u)) = Failed u (message err))
   \<and> (fetch u = Inr resp \<and> body resp = Inr txt \<longrightarrow>
        failures (warm_url fetch tc rc r u) = failures r
      \<and> success (warm_url fetch tc rc r u) = success r + 1
      \<and> urls (warm_url fetch tc rc r u)
          = urls r @ [Warmed u (status resp) (cacheStatus_of resp) (cfRay_of resp) tc
                        (actualColo_of (cfRay_of resp)) (actualColo_of (cfRay_of resp) = tc)
                        (regionalMatch_of rc (actualColo_of (cfRay_of resp)))])
   \<and> warm_loop fetch tc rc r (us @ u # vs)
       = warm_loop fetch tc rc (warm_url fetch tc rc (warm_loop fetch tc rc r us) u) vs
   \<and> set us \<subseteq> entry_url ` set (urls (warm_loop fetch tc rc r us))"
proof -
  have a: "warm_url fetch tc rc r u
        = r\<lparr>failures := failures r + 1, urls := urls r @ [Failed u (message err)]\<rparr>"
    if "fetch u = Inl err"
    using that by (simp add: warm_url_fetch_failed record_failure_def)
  have b: "failures (warm_url fetch tc rc r u) = failures r + 1
      \<and> last (urls (warm_url fetch tc rc r u)) = Failed u (message err)"
    if "fetch u = Inr resp" "body resp = Inl err"
    using that by (simp add: warm_url_body_failed tally_fields warm_response_fields)
  have c: "failures (warm_url fetch tc rc r u) = failures r
      \<and> success (warm_url fetch tc rc r u) = success r + 1
      \<and> urls (warm_url fetch tc rc r u)
          = urls r @ [Warmed u (status resp) (cacheStatus_of resp) (cfRay_of resp) tc
                        (actualColo_of (cfRay_of resp)) (actualColo_of (cfRay_of resp) = tc)
                        (regionalMatch_of rc (actualColo_of (cfRay_of resp)))]"
    if "fetch u = Inr resp" "body resp = Inr txt"
    using that by (simp add: warm_url_response warm_response_fields)
  have d: "warm_loop fetch tc rc r (us @ u # vs)
       = warm_loop fetch tc rc (warm_url fetch tc rc (warm_loop fetch tc rc r us) u) vs"
    by (simp add: warm_loop_append warm_loop_Cons)
  have e: "set us \<subseteq> entry_url ` set (urls (warm_loop fetch tc rc r us))"
    by (rule warm_loop_covers)
  from a b c d e show ?thesis by blast
qed

theorem transport_failure_recorded_and_run_continues_witness:
  "warm_url demo_fetch ''SYD'' [''SYD''] (initial_results 0) ''https://a/down''
     = (initial_results 0)\<lparr>failures := failures (initial_results 0) + 1,
          urls := urls (initial_results 0) @ [Failed ''https://a/down'' (message (Error ''connection refused''))]\<rparr>
   \<and> failures (warm_url demo_fetch ''SYD'' [''SYD''] (initial_results 0) ''https://a/missing'')
       = failures (initial_results 0)
   \<and> success (warm_url demo_fetch ''SYD'' [''SYD''] (initial_results 0) ''https://a/missing'')
       = success (initial_results 0) + 1
   \<and> failures (warm_url demo_fetch ''SYD'' [''SYD''] (initial_results 0) ''https://a/cut'')
       = failures (initial_results 0) + 1"
proof -
  have d: "demo_fetch ''https://a/down'' = Inl (Error ''connection refused'')"
    by (simp add: demo_fetch_def)
  have m: "demo_fetch ''https://a/missing''
             = Inr \<lparr> status = 404, headers = map_of [(''CF-Cache-Status'', ''MISS'')], body = Inr ''not found'' \<rparr>"
    by (simp add: demo_fetch_def)
  have mb: "body \<lparr> status = 404, headers = map_of [(''CF-Cache-Status'', ''MISS'')], body = Inr ''not found'' \<rparr>
              = Inr ''not found''"
    by simp
  have c: "demo_fetch ''https://a/cut''
             = Inr \<lparr> status = 200,
                     headers = map_of [(''CF-Cache-Status'', ''EXPIRED''), (''CF-RAY'', ''8f2a1b9c'')],
                     body = Inl (Error ''stream closed'') \<rparr>"
    by (simp add: demo_fetch_def)
  have cb: "body \<lparr> status = 200,
                     headers = map_of [(''CF-Cache-Status'', ''EXPIRED''), (''CF-RAY'', ''8f2a1b9c'')],
                     body = Inl (Error ''stream closed'') \<rparr> = Inl (Error ''stream closed'')"
    by simp
  from transport_failure_recorded_and_run_continues
         [of demo_fetch "''https://a/down''" "Error ''connection refused''" "''SYD''" "[''SYD'']"
             "initial_results 0"] d
  have 1: "warm_url demo_fetch ''SYD'' [''SYD''] (initial_results 0) ''https://a/down''
     = (initial_results 0)\<lparr>failures := failures (initial_results 0) + 1,
          urls := urls (initial_results 0) @ [Failed ''https://a/down'' (message (Error ''connection refused''))]\<rparr>"
    by blast
  from transport_failure_recorded_and_run_continues
         [of demo_fetch "''https://a/missing''" _ "''SYD''" "[''SYD'']" "initial_results 0"
             "\<lparr> status = 404, headers = map_of [(''CF-Cache-Status'', ''MISS'')], body = Inr ''not found'' \<rparr>"
             "''not found''"] m mb
  have 2: "failures (warm_url demo_fetch ''SYD'' [''SYD''] (initial_results 0) ''https://a/missing'')
       = failures (initial_results 0)
     \<and> success (warm_url demo_fetch ''SYD'' [''SYD''] (initial_results 0) ''https://a/missing'')
       = success (initial_results 0) + 1"
    by blast
  from transport_failure_recorded_and_run_continues
         [of demo_fetch "''https://a/cut''" "Error ''stream closed''" "''SYD''" "[''SYD'']" "initial_results 0"
             "\<lparr> status = 200,
                     headers = map_of [(''CF-Cache-Status'', ''EXPIRED''), (''CF-RAY'', ''8f2a1b9c'')],
                     body = Inl (Error ''stream closed'') \<rparr>"] c cb
  have 3: "failures (warm_url demo_fetch ''SYD'' [''SYD''] (initial_results 0) ''https://a/cut'')
       = failures (initial_results 0) + 1"
    by blast
  from 1 2 3 show ?thesis by blast
qed

text \<open>
  Claim C4 as stated fails on a response that is not OK: the page answered with status
  404 is counted as a success, the failures counter stays at 0 and its entry is a detail
  entry, not a failure entry.
\<close>

theorem non_ok_response_is_not_a_failure:
  "(case demo_fetch ''https://a/missing'' of Inl err \<Rightarrow> False | Inr resp \<Rightarrow> \<not> ok resp)
   \<and> failures (warm_results s5_config demo_fetch (demo_request [''https://a/missing''])) = 0
   \<and> success (warm_results s5_config demo_fetch (demo_request [''https://a/missing''])) = 1
   \<and> map is_failure (urls (warm_results s5_config demo_fetch (demo_request [''https://a/missing''])))
       = [False]"
  by code_simp

text \<open>
  Claim C7. Every response adds one to exactly one cache-status counter and one to the
  success counter, so the four counters always sum to the success count; and a run in
  which every response body can be read has \<open>success + failures\<close> and the number of
  entries both equal to the number of URLs. A response whose body read rejects breaks
  the count: for the single URL below the run reports one success and one failure and
  holds two entries.
\<close>

theorem body_read_failure_counted_twice:
  "length (req_urls (demo_request [''https://a/cut''])) = 1
   \<and> success (warm_results s5_config demo_fetch (demo_request [''https://a/cut''])) = 1
   \<and> failures (warm_results s5_config demo_fetch (demo_request [''https://a/cut''])) = 1
   \<and> length (urls (warm_results s5_config demo_fetch (demo_request [''https://a/cut'']))) = 2
   \<and> cache_total (warm_results s5_config demo_fetch (demo_request [''https://a/cut''])) = 1"
proof -
  let ?resp = "\<lparr> status = 200,
                 headers = map_of [(''CF-Cache-Status'', ''EXPIRED''), (''CF-RAY'', ''8f2a1b9c'')],
                 body = Inl (Error ''stream closed'') \<rparr> :: response"
  have f: "demo_fetch ''https://a/cut'' = Inr ?resp"
    by (simp add: demo_fetch_def)
  have step: "warm_url demo_fetch tc rc r ''https://a/cut''
                = record_failure ''https://a/cut'' (Error ''stream closed'')
                    (warm_response tc rc ''https://a/cut'' ?resp r)" for tc rc r
    using f by (intro warm_url_body_failed [where resp = ?resp]) simp_all
  show ?thesis
    by (simp add: warm_results_def demo_request_def compute_rates_fields warm_loop_def step
        tally_fields warm_response_fields cache_total_def initial_results_def)
qed

section \<open>Scheduled and manual runs\<close>

text \<open>
  Claim C6, as the code has it. A scheduled run that completes took its slice from the
  region's persisted pagination cursor, from the stored offset to the offset plus the
  page size (capped at the catalog's length), and leaves the advanced offset persisted
  (0 once the end of the catalog is reached). A manual run through \<open>/trigger\<close> that
  completes took the first \<open>urlCount\<close> URLs of the catalog, 5 in test mode and the page
  size otherwise; and whatever its outcome, a manual run leaves every region's
  pagination cursor as it found it.
\<close>

theorem scheduled_run_pages_and_manual_run_does_not:
  "(fst (scheduled cfg fetch sf now allUrls env) = Inr rep \<longrightarrow>
       run_urlsToWarm rep
         = slice allUrls (lastIndex_of (entries (CACHE_WARMER_KV env) (progressKey (run_region rep))))
             (endIndex_of env (lastIndex_of (entries (CACHE_WARMER_KV env) (progressKey (run_region rep)))) allUrls)
     \<and> entries (CACHE_WARMER_KV (snd (scheduled cfg fetch sf now allUrls env))) (progressKey (run_region rep))
         = Some (Text (String_num (newIndex_of
             (endIndex_of env (lastIndex_of (entries (CACHE_WARMER_KV env) (progressKey (run_region rep)))) allUrls)
             allUrls))))
   \<and> (fst (trigger cfg fetch sf now allUrls testMode env) = Inr rep' \<longrightarrow>
        run_urlsToWarm rep'
          = slice allUrls (Some 0) (if testMode then Some 5 else parseInt (MAX_URLS_PER_RUN env)))
   \<and> entries (CACHE_WARMER_KV (snd (trigger cfg fetch sf now allUrls testMode env))) (progressKey region)
       = entries (CACHE_WARMER_KV env) (progressKey region)"
  using scheduled_success [of cfg fetch sf now allUrls env rep]
    trigger_slice [of cfg fetch sf now allUrls testMode env rep']
    trigger_progress [of cfg fetch sf now allUrls testMode env region]
  by blast

theorem scheduled_run_pages_and_manual_run_does_not_witness:
  "(\<exists>r env'. scheduled s5_config demo_fetch (\<lambda>h. False) 0 catalog8 paged_env
        = (Inr \<lparr> run_region = Some ''Western North America'',
                 run_urlsToWarm = [''u6'', ''u7'', ''u8''], run_results = r \<rparr>, env')
      \<and> entries (CACHE_WARMER_KV env') (progressKey (Some ''Western North America'')) = Some (Text ''0''))
   \<and> (\<exists>r env'. trigger s5_config demo_fetch (\<lambda>h. False) 0 catalog8 True paged_env
        = (Inr \<lparr> run_region = Some ''Western North America'',
                 run_urlsToWarm = [''u1'', ''u2'', ''u3'', ''u4'', ''u5''], run_results = r \<rparr>, env')
      \<and> entries (CACHE_WARMER_KV env') (progressKey (Some ''Western North America'')) = Some (Text ''5''))"
proof -
  let ?key = "progressKey (Some ''Western North America'')"
  obtain r env' where s: "scheduled s5_config demo_fetch (\<lambda>h. False) 0 catalog8 paged_env
        = (Inr \<lparr> run_region = Some ''Western North America'',
                 run_urlsToWarm = [''u6'', ''u7'', ''u8''], run_results = r \<rparr>, env')"
    using paged_env_scheduled by blast
  obtain r' env'' where t: "trigger s5_config demo_fetch (\<lambda>h. False) 0 catalog8 True paged_env
        = (Inr \<lparr> run_region = Some ''Western North America'',
                 run_urlsToWarm = [''u1'', ''u2'', ''u3'', ''u4'', ''u5''], run_results = r' \<rparr>, env'')"
    using paged_env_trigger by blast
  have st: "lastIndex_of (entries (CACHE_WARMER_KV paged_env) ?key) = Some 5"
    by (simp add: paged_env_def env_of_def kv_with_def progressKey_def template_def lastIndex_of_def
        truthy_def kv_parseInt_def parseInt_examples)
  have en: "endIndex_of paged_env (Some 5) catalog8 = Some 8"
    by (simp add: paged_env_def env_of_def endIndex_of_def parseInt_examples Math_min_def js_add_def
        catalog8_def)
  have nw: "String_num (newIndex_of (Some 8) catalog8) = ''0''"
    by (simp add: newIndex_of_def js_ge_def catalog8_def String_num_def String_int_examples)
  have five: "entries (CACHE_WARMER_KV paged_env) ?key = Some (Text ''5'')"
    by (simp add: paged_env_def env_of_def kv_with_def progressKey_def template_def)
  note inst = scheduled_run_pages_and_manual_run_does_not
    [of s5_config demo_fetch "\<lambda>h. False" 0 catalog8 paged_env
        "\<lparr> run_region = Some ''Western North America'',
           run_urlsToWarm = [''u6'', ''u7'', ''u8''], run_results = r \<rparr>"
        True
        "\<lparr> run_region = Some ''Western North America'',
           run_urlsToWarm = [''u1'', ''u2'', ''u3'', ''u4'', ''u5''], run_results = r' \<rparr>"
        "Some ''Western North America''"]
  have a: "entries (CACHE_WARMER_KV env') ?key = Some (Text ''0'')"
    using inst s by (simp add: st en nw)
  have b: "entries (CACHE_WARMER_KV env'') ?key = Some (Text ''5'')"
    using inst t by (simp add: five)
  from s t a b show ?thesis by blast
qed

text \<open>
  Claim C6 as stated fails for a manual call: with the region's cursor at 5 the manual
  run warms the first five URLs of the catalog, not the slice from offset 5, and the
  cursor still reads 5 afterwards.
\<close>

theorem manual_trigger_ignores_cursor:
  "lastIndex_of (entries (CACHE_WARMER_KV paged_env) (progressKey (Some ''Western North America''))) = Some 5
   \<and> (\<exists>r env'. trigger s5_config demo_fetch (\<lambda>h. False) 0 catalog8 True paged_env
        = (Inr \<lparr> run_region = Some ''Western North America'',
                 run_urlsToWarm = [''u1'', ''u2'', ''u3'', ''u4'', ''u5''], run_results = r \<rparr>, env')
      \<and> lastIndex_of (entries (CACHE_WARMER_KV env') (progressKey (Some ''Western North America''))) = Some 5)"
proof -
  let ?key = "progressKey (Some ''Western North America'')"
  obtain r env' where t: "trigger s5_config demo_fetch (\<lambda>h. False) 0 catalog8 True paged_env
        = (Inr \<lparr> run_region = Some ''Western North America'',
                 run_urlsToWarm = [''u1'', ''u2'', ''u3'', ''u4'', ''u5''], run_results = r \<rparr>, env')"
    using paged_env_trigger by blast
  have st: "lastIndex_of (entries (CACHE_WARMER_KV paged_env) ?key) = Some 5"
    by (simp add: paged_env_def env_of_def kv_with_def progressKey_def template_def lastIndex_of_def
        truthy_def kv_parseInt_def parseInt_examples)
  have "entries (CACHE_WARMER_KV env') ?key = entries (CACHE_WARMER_KV paged_env) ?key"
    using trigger_progress [of s5_config demo_fetch "\<lambda>h. False" 0 catalog8 True paged_env
        "Some ''Western North America''"] t
    by simp
  with st have "lastIndex_of (entries (CACHE_WARMER_KV env') ?key) = Some 5" by simp
  with st t show ?thesis by blast
qed

section \<open>URL discovery\<close>



section \<open>History\<close>



end
